theory Spec2Isabelle
  imports Main
begin

section \<open>JavaScript strings and values\<close>

text \<open>
  A JavaScript string is a sequence of UTF-16 code units; \<open>length\<close> and \<open>slice\<close> count code
  units. Strings are therefore lists of code-unit numbers, and \<open>lit\<close> embeds an ASCII literal.
\<close>

type_synonym ustring = "nat list"

definition lit :: "string \<Rightarrow> ustring" where
  "lit s = map of_char s"

text \<open>The ellipsis character U+2026 appended to truncated previews.\<close>

definition ellipsis :: ustring where
  "ellipsis = [8230]"

text \<open>
  A value of TypeScript type \<open>unknown\<close> as far as the code inspects it (by \<open>typeof\<close>, by
  \<open>===\<close> against a string, or not at all); \<open>JObject\<close> stands for any object or array.
  An absent property (\<open>undefined\<close>) is \<open>None\<close> of the option type around it.
\<close>

datatype jsval = JNull | JBool bool | JNum int | JStr ustring | JObject

text \<open>\<open>a ?? b\<close> for a value that is a string or nullish.\<close>

definition nullish_or :: "'a option \<Rightarrow> 'a option \<Rightarrow> 'a option" where
  "nullish_or a b = (case a of None \<Rightarrow> b | Some x \<Rightarrow> Some x)"

text \<open>\<open>a ?? b\<close> for a value of type \<open>unknown\<close>: both \<open>undefined\<close> and \<open>null\<close> give \<open>b\<close>.\<close>

definition nullish_or_val :: "jsval option \<Rightarrow> jsval option \<Rightarrow> jsval option" where
  "nullish_or_val a b = (case a of None \<Rightarrow> b | Some JNull \<Rightarrow> b | Some x \<Rightarrow> Some x)"

text \<open>\<open>String.prototype.split\<close> on a one-unit separator: never empty, \<open>''''.split(c) = ['''']\<close>.\<close>

fun split :: "nat \<Rightarrow> ustring \<Rightarrow> ustring list" where
  "split c [] = [[]]"
| "split c (x # xs) =
     (if x = c then [] # split c xs
      else (case split c xs of [] \<Rightarrow> [[x]] | y # ys \<Rightarrow> (x # y) # ys))"

text \<open>\<open>Array.prototype.pop\<close> as a value: the last element, \<open>undefined\<close> on the empty array.\<close>

definition pop :: "'a list \<Rightarrow> 'a option" where
  "pop xs = (if xs = [] then None else Some (last xs))"

text \<open>Decimal rendering of a number in a template literal.\<close>

fun show_nat :: "nat \<Rightarrow> ustring" where
  "show_nat n = (if n < 10 then [48 + n] else show_nat (n div 10) @ [48 + n mod 10])"

declare show_nat.simps [simp del]

section \<open>Tool status formatting\<close>

text \<open>
  The \<open>input\<close> record of a tool event, with the three properties \<open>formatToolStatus\<close> reads.
  \<open>file_path\<close> and \<open>description\<close> are inspected by \<open>typeof\<close>; \<open>command\<close> is cast to
  \<open>string\<close> by the source, so it is a string or nullish here.
\<close>

record tool_input =
  file_path :: "jsval option"
  command :: "ustring option"
  description :: "jsval option"

definition empty_input :: tool_input where
  "empty_input = \<lparr>file_path = None, command = None, description = None\<rparr>"

definition basename :: "jsval option \<Rightarrow> ustring" where
  "basename p =
     (case p of
        Some (JStr s) \<Rightarrow> (case pop (split 47 s) of None \<Rightarrow> s | Some b \<Rightarrow> b)
      | _ \<Rightarrow> [])"

definition formatToolStatus :: "ustring \<Rightarrow> tool_input \<Rightarrow> ustring" where
  "formatToolStatus toolName input =
     (if toolName = lit ''Read'' then lit ''Reading '' @ basename (file_path input)
      else if toolName = lit ''Edit'' then lit ''Editing '' @ basename (file_path input)
      else if toolName = lit ''Write'' then lit ''Writing '' @ basename (file_path input)
      else if toolName = lit ''Bash'' then
        (let cmd = (case command input of None \<Rightarrow> [] | Some c \<Rightarrow> c)
         in lit ''Running: '' @ (if length cmd > 60 then take 60 cmd @ ellipsis else cmd))
      else if toolName = lit ''Glob'' then lit ''Searching files''
      else if toolName = lit ''Grep'' then lit ''Searching code''
      else if toolName = lit ''WebFetch'' then lit ''Fetching web content''
      else if toolName = lit ''WebSearch'' then lit ''Searching the web''
      else if toolName = lit ''Task'' then
        (let desc = (case description input of Some (JStr d) \<Rightarrow> d | _ \<Rightarrow> [])
         in if desc \<noteq> []
            then lit ''Subtask: '' @ (if length desc > 80 then take 80 desc @ ellipsis else desc)
            else lit ''Running subtask'')
      else if toolName = lit ''browser_navigate'' then lit ''Opening browser''
      else if toolName = lit ''browser_click'' then lit ''Clicking in browser''
      else if toolName = lit ''browser_type'' then lit ''Typing in browser''
      else if toolName = lit ''browser_snapshot'' then lit ''Reading browser page''
      else lit ''Using '' @ toolName)"

text \<open>The tool names with a case of their own in \<open>formatToolStatus\<close>.\<close>

definition known_tools :: "ustring list" where
  "known_tools = map lit [''Read'', ''Edit'', ''Write'', ''Bash'', ''Glob'', ''Grep'',
     ''WebFetch'', ''WebSearch'', ''Task'', ''browser_navigate'', ''browser_click'',
     ''browser_type'', ''browser_snapshot'']"


section \<open>Gateway events\<close>

text \<open>
  The payload of a gateway event is a JSON object. The record below has the properties the
  translator reads from it, each with the type the source casts it to: \<open>phase\<close> and \<open>type\<close>
  stay \<open>unknown\<close>; the others are strings (or, for \<open>input\<close> and \<open>data\<close>, objects) that may be
  nullish. For these, \<open>None\<close> is \<open>undefined\<close> or \<open>null\<close>, which the code never tells apart.
  The nested \<open>data\<close> object has the same readable properties as the payload itself
  (\<open>ev_type\<close> is the property \<open>type\<close>).
\<close>

record event_fields =
  ev_phase :: "jsval option"
  ev_type :: "jsval option"
  ev_sessionKey :: "ustring option"
  ev_toolName :: "ustring option"
  ev_name :: "ustring option"
  ev_input :: "tool_input option"
  ev_toolId :: "ustring option"

record payload = event_fields +
  pl_stream :: "ustring option"
  pl_data :: "event_fields option"
  pl_runId :: "ustring option"
  pl_error :: "ustring option"

text \<open>The payload seen as the plain object \<open>payload?.data ?? payload\<close> falls back to.\<close>

definition fields_of :: "payload \<Rightarrow> event_fields" where
  "fields_of p = \<lparr>ev_phase = ev_phase p, ev_type = ev_type p, ev_sessionKey = ev_sessionKey p,
     ev_toolName = ev_toolName p, ev_name = ev_name p, ev_input = ev_input p,
     ev_toolId = ev_toolId p\<rparr>"

definition no_fields :: event_fields where
  "no_fields = \<lparr>ev_phase = None, ev_type = None, ev_sessionKey = None, ev_toolName = None,
     ev_name = None, ev_input = None, ev_toolId = None\<rparr>"

definition no_payload :: payload where
  "no_payload = \<lparr>ev_phase = None, ev_type = None, ev_sessionKey = None, ev_toolName = None,
     ev_name = None, ev_input = None, ev_toolId = None,
     pl_stream = None, pl_data = None, pl_runId = None, pl_error = None\<rparr>"

section \<open>Tracked agents and dashboard messages\<close>

datatype GatewayConnectionState = Connecting | Connected | Disconnected | Handshaking | GwError

datatype AgentStatus = Idle | Busy | Error | Waiting_approval

text \<open>
  \<open>TrackedTool\<close> and \<open>TrackedAgent\<close>; \<open>t_\<close> and \<open>a_\<close> prefix the property names the two
  interfaces share (\<open>name\<close>, \<open>status\<close>) and the ones that are reserved words or constants of
  HOL (\<open>done\<close>, \<open>id\<close>).
\<close>

record TrackedTool =
  t_toolId :: ustring
  t_name :: ustring
  t_status :: ustring
  startedAt :: nat
  completedAt :: "nat option"
  t_done :: bool
  permissionWait :: bool

record TrackedAgent =
  a_id :: nat
  a_sessionKey :: ustring
  a_name :: ustring
  a_status :: AgentStatus
  currentTask :: "ustring option"
  currentRunId :: "ustring option"
  toolHistory :: "TrackedTool list"
  createdAt :: nat

text \<open>
  The messages sent to the dashboard. \<open>existingAgents\<close> is always sent with empty
  \<open>agentMeta\<close> and \<open>folderNames\<close>, and \<open>agentCreated\<close> without \<open>folderName\<close>; these are
  left out. \<open>StatusError\<close> is the status \<open>error\<close> of an \<open>agentStatus\<close> message.
\<close>

datatype DashStatus = Active | Waiting | StatusError

datatype DashboardMessage =
    LayoutLoaded "jsval"
  | ExistingAgents "nat list"
  | AgentCreated nat ustring
  | AgentClosed nat
  | AgentToolStart nat ustring ustring
  | AgentToolDone nat ustring
  | AgentToolsClear nat
  | AgentStatus nat DashStatus
  | AgentToolPermission nat
  | AgentToolPermissionClear nat
  | AgentError nat ustring
  | ConnectionStatus GatewayConnectionState "ustring option"
  | SettingsLoaded bool
  | CharacterSpritesLoaded jsval
  | FloorTilesLoaded jsval
  | WallTilesLoaded jsval
  | FurnitureAssetsLoaded jsval jsval

section \<open>The event translator\<close>

text \<open>
  A JavaScript \<open>Map\<close> keeps its entries in insertion order: \<open>set\<close> on a present key replaces
  the value in place, on a new key it appends. \<open>get\<close> is \<open>map_of\<close>.
\<close>

fun map_set :: "'k \<Rightarrow> 'v \<Rightarrow> ('k \<times> 'v) list \<Rightarrow> ('k \<times> 'v) list" where
  "map_set k v [] = [(k, v)]"
| "map_set k v ((k', v') # m) = (if k' = k then (k, v) # m else (k', v') # map_set k v m)"

record translator =
  agents :: "(ustring \<times> TrackedAgent) list"
  nextAgentId :: nat
  sessionToId :: "(ustring \<times> nat) list"
  toolIdCounter :: nat

definition init_translator :: translator where
  "init_translator = \<lparr>agents = [], nextAgentId = 1, sessionToId = [], toolIdCounter = 0\<rparr>"

text \<open>
  What the handlers read from a payload before anything else: the session key
  \<open>payload?.sessionKey ?? payload?.data?.sessionKey\<close>, the lifecycle phase
  \<open>payload?.data?.phase ?? payload?.phase\<close>, and for a tool event the object
  \<open>payload?.data ?? payload\<close> with its phase (\<open>phase ?? type\<close>) and its \<open>toolId\<close>.
\<close>

definition payload_sessionKey :: "payload option \<Rightarrow> ustring option" where
  "payload_sessionKey payload =
     nullish_or (Option.bind payload ev_sessionKey)
       (Option.bind (Option.bind payload pl_data) ev_sessionKey)"

definition lifecycle_phase :: "payload option \<Rightarrow> jsval option" where
  "lifecycle_phase payload =
     nullish_or_val (Option.bind (Option.bind payload pl_data) ev_phase)
       (Option.bind payload ev_phase)"

definition tool_fields :: "payload option \<Rightarrow> event_fields option" where
  "tool_fields payload = nullish_or (Option.bind payload pl_data) (map_option fields_of payload)"

definition tool_phase :: "payload option \<Rightarrow> jsval option" where
  "tool_phase payload =
     nullish_or_val (Option.bind (tool_fields payload) ev_phase)
       (Option.bind (tool_fields payload) ev_type)"

definition tool_id_of :: "payload option \<Rightarrow> ustring option" where
  "tool_id_of payload = Option.bind (tool_fields payload) ev_toolId"

text \<open>
  \<open>handleLifecycleEvent\<close>. The handlers take the reading of \<open>Date.now()\<close> as \<open>now\<close> and
  return the new translator state with the dashboard messages emitted, in order. Mutating a
  tracked agent in place is \<open>map_set\<close> at its key.
\<close>

definition handleLifecycleEvent ::
  "nat \<Rightarrow> payload option \<Rightarrow> translator \<Rightarrow> translator \<times> DashboardMessage list" where
  "handleLifecycleEvent now payload tr =
     (let phase = lifecycle_phase payload;
          sessionKey = payload_sessionKey payload
      in case sessionKey of
           None \<Rightarrow> (tr, [])
         | Some k \<Rightarrow>
             if k = [] then (tr, [])
             else if phase = Some (JStr (lit ''start'')) then
               (case map_of (sessionToId tr) k of
                  None \<Rightarrow>
                    (let aid = nextAgentId tr;
                         agent = \<lparr>a_id = aid, a_sessionKey = k,
                                  a_name = lit ''Agent #'' @ show_nat aid,
                                  a_status = Busy, currentTask = None,
                                  currentRunId = Option.bind payload pl_runId,
                                  toolHistory = [], createdAt = now\<rparr>
                     in (tr\<lparr>nextAgentId := aid + 1,
                            sessionToId := map_set k aid (sessionToId tr),
                            agents := map_set k agent (agents tr)\<rparr>,
                         [AgentCreated aid (a_name agent), AgentStatus aid Active]))
                | Some aid \<Rightarrow>
                    ((case map_of (agents tr) k of
                        None \<Rightarrow> tr
                      | Some agent \<Rightarrow>
                          tr\<lparr>agents := map_set k
                               (agent\<lparr>a_status := Busy,
                                      currentRunId := Option.bind payload pl_runId,
                                      toolHistory := []\<rparr>) (agents tr)\<rparr>),
                     [AgentStatus aid Active]))
             else if phase = Some (JStr (lit ''end'')) then
               (case map_of (sessionToId tr) k of
                  None \<Rightarrow> (tr, [])
                | Some aid \<Rightarrow>
                    ((case map_of (agents tr) k of
                        None \<Rightarrow> tr
                      | Some agent \<Rightarrow>
                          tr\<lparr>agents := map_set k
                               (agent\<lparr>a_status := Idle, currentRunId := None\<rparr>) (agents tr)\<rparr>),
                     [AgentToolsClear aid, AgentStatus aid Waiting]))
             else if phase = Some (JStr (lit ''error'')) then
               (case map_of (sessionToId tr) k of
                  None \<Rightarrow> (tr, [])
                | Some aid \<Rightarrow>
                    ((case map_of (agents tr) k of
                        None \<Rightarrow> tr
                      | Some agent \<Rightarrow>
                          tr\<lparr>agents := map_set k (agent\<lparr>a_status := Error\<rparr>) (agents tr)\<rparr>),
                     [AgentError aid (case Option.bind payload pl_error of
                                       None \<Rightarrow> lit ''Unknown error'' | Some e \<Rightarrow> e)]))
             else (tr, []))"

text \<open>
  \<open>toolHistory.find((t) => t.toolId === toolId)\<close> followed by the mutation of the tool found:
  the first entry with that id is marked done, the others are left as they are.
\<close>

fun mark_done :: "ustring \<Rightarrow> nat \<Rightarrow> TrackedTool list \<Rightarrow> TrackedTool list" where
  "mark_done tid now [] = []"
| "mark_done tid now (t # ts) =
     (if t_toolId t = tid then t\<lparr>t_done := True, completedAt := Some now\<rparr> # ts
      else t # mark_done tid now ts)"

text \<open>The id \<open>tool-n\<close> generated for the counter value \<open>n\<close> reached by the increment.\<close>

definition generated_tool_id :: "nat \<Rightarrow> ustring" where
  "generated_tool_id n = lit ''tool-'' @ show_nat n"

text \<open>
  The tool id a tool event is handled under: its own \<open>toolId\<close>, or the id generated from
  the incremented counter when it carries none.
\<close>

definition used_tool_id :: "translator \<Rightarrow> payload option \<Rightarrow> ustring" where
  "used_tool_id tr payload =
     (case tool_id_of payload of
        None \<Rightarrow> generated_tool_id (toolIdCounter tr + 1)
      | Some t \<Rightarrow> t)"

text \<open>
  \<open>handleToolEvent\<close>. A nullish or empty session key is falsy, so \<open>id\<close> is \<open>undefined\<close>
  for it and the event is dropped before anything else is read; the tool id counter is
  incremented only when the event carries no \<open>toolId\<close>.
\<close>

definition handleToolEvent ::
  "nat \<Rightarrow> payload option \<Rightarrow> translator \<Rightarrow> translator \<times> DashboardMessage list" where
  "handleToolEvent now payload tr =
     (let sessionKey = payload_sessionKey payload
      in case sessionKey of
           None \<Rightarrow> (tr, [])
         | Some k \<Rightarrow>
             if k = [] then (tr, [])
             else
               (case map_of (sessionToId tr) k of
                  None \<Rightarrow> (tr, [])
                | Some aid \<Rightarrow>
                    (let agent = map_of (agents tr) k;
                         toolEvent = tool_fields payload;
                         toolPhase = tool_phase payload;
                         toolName = (case nullish_or (Option.bind toolEvent ev_toolName)
                                            (Option.bind toolEvent ev_name) of
                                       None \<Rightarrow> lit ''unknown'' | Some n \<Rightarrow> n);
                         toolInput = (case Option.bind toolEvent ev_input of
                                        None \<Rightarrow> empty_input | Some i \<Rightarrow> i);
                         counter = (case tool_id_of payload of
                                      None \<Rightarrow> toolIdCounter tr + 1
                                    | Some t \<Rightarrow> toolIdCounter tr);
                         toolId = used_tool_id tr payload;
                         tr1 = tr\<lparr>toolIdCounter := counter\<rparr>
                     in if toolPhase = Some (JStr (lit ''start'')) \<or>
                           toolPhase = Some (JStr (lit ''tool_start'')) then
                          (let status = formatToolStatus toolName toolInput
                           in ((case agent of
                                  None \<Rightarrow> tr1
                                | Some a \<Rightarrow>
                                    tr1\<lparr>agents := map_set k
                                          (a\<lparr>currentTask := Some status,
                                             toolHistory := toolHistory a @
                                               [\<lparr>t_toolId = toolId, t_name = toolName,
                                                 t_status = status, startedAt = now,
                                                 completedAt = None, t_done = False,
                                                 permissionWait = False\<rparr>]\<rparr>) (agents tr1)\<rparr>),
                               [AgentToolStart aid toolId status]))
                        else if toolPhase = Some (JStr (lit ''end'')) \<or>
                                toolPhase = Some (JStr (lit ''tool_end'')) then
                          ((case agent of
                              None \<Rightarrow> tr1
                            | Some a \<Rightarrow>
                                tr1\<lparr>agents := map_set k
                                      (a\<lparr>toolHistory := mark_done toolId now (toolHistory a)\<rparr>)
                                      (agents tr1)\<rparr>),
                           [AgentToolDone aid toolId])
                        else (tr1, []))))"

text \<open>\<open>handleApprovalRequest\<close> reads the session key of the payload only, not of \<open>data\<close>.\<close>

definition handleApprovalRequest ::
  "payload option \<Rightarrow> translator \<Rightarrow> translator \<times> DashboardMessage list" where
  "handleApprovalRequest payload tr =
     (case Option.bind payload ev_sessionKey of
        None \<Rightarrow> (tr, [])
      | Some k \<Rightarrow>
          if k = [] then (tr, [])
          else
            (case map_of (sessionToId tr) k of
               None \<Rightarrow> (tr, [])
             | Some aid \<Rightarrow>
                 ((case map_of (agents tr) k of
                     None \<Rightarrow> tr
                   | Some agent \<Rightarrow>
                       tr\<lparr>agents := map_set k (agent\<lparr>a_status := Waiting_approval\<rparr>) (agents tr)\<rparr>),
                  [AgentToolPermission aid])))"

definition handleGatewayEvent ::
  "nat \<Rightarrow> ustring \<Rightarrow> payload option \<Rightarrow> translator \<Rightarrow> translator \<times> DashboardMessage list" where
  "handleGatewayEvent now event payload tr =
     (if event = lit ''agent.stream'' then
        (let stream = Option.bind payload pl_stream
         in if stream = Some (lit ''lifecycle'') then handleLifecycleEvent now payload tr
            else if stream = Some (lit ''tool'') then handleToolEvent now payload tr
            else (tr, []))
      else if event = lit ''exec.approval.requested'' then handleApprovalRequest payload tr
      else (tr, []))"

text \<open>
  A gateway event as the translator receives it: the clock reading when it is handled, the
  event name and the payload (which may be missing). \<open>run\<close> handles a sequence of events
  one after the other, as the single event-processing path of the process does;
  \<open>run_messages\<close> collects what is emitted on the way.
\<close>

type_synonym gateway_event = "nat \<times> ustring \<times> payload option"

definition step :: "gateway_event \<Rightarrow> translator \<Rightarrow> translator" where
  "step e tr = (case e of (now, event, payload) \<Rightarrow> fst (handleGatewayEvent now event payload tr))"

fun run :: "gateway_event list \<Rightarrow> translator \<Rightarrow> translator" where
  "run [] tr = tr"
| "run (e # es) tr = run es (step e tr)"

fun run_messages :: "gateway_event list \<Rightarrow> translator \<Rightarrow> DashboardMessage list" where
  "run_messages [] tr = []"
| "run_messages ((now, event, payload) # es) tr =
     snd (handleGatewayEvent now event payload tr) @ run_messages es (step (now, event, payload) tr)"

text \<open>
  The payloads the gateway sends for a session, as the simulator of the repository builds
  them: a lifecycle payload with the phase in \<open>data\<close> and an optional run id, and a tool payload
  whose \<open>data\<close> holds the phase, the tool name and input, and the tool id.
\<close>

definition agent_stream :: ustring where
  "agent_stream = lit ''agent.stream''"

definition lifecycle_payload :: "string \<Rightarrow> string \<Rightarrow> ustring option \<Rightarrow> payload option" where
  "lifecycle_payload k ph rid =
     Some (no_payload\<lparr>pl_stream := Some (lit ''lifecycle''), ev_sessionKey := Some (lit k),
             pl_data := Some (no_fields\<lparr>ev_phase := Some (JStr (lit ph))\<rparr>), pl_runId := rid\<rparr>)"

definition tool_payload :: "string \<Rightarrow> event_fields \<Rightarrow> payload option" where
  "tool_payload k d =
     Some (no_payload\<lparr>pl_stream := Some (lit ''tool''), ev_sessionKey := Some (lit k),
             pl_data := Some d\<rparr>)"

definition tool_start_data :: "string \<Rightarrow> tool_input \<Rightarrow> ustring option \<Rightarrow> event_fields" where
  "tool_start_data nm inp tid =
     no_fields\<lparr>ev_phase := Some (JStr (lit ''start'')), ev_toolName := Some (lit nm),
       ev_input := Some inp, ev_toolId := tid\<rparr>"

definition tool_end_data :: "ustring option \<Rightarrow> event_fields" where
  "tool_end_data tid = no_fields\<lparr>ev_phase := Some (JStr (lit ''end'')), ev_toolId := tid\<rparr>"

text \<open>
  The kinds of event the dispatcher \<open>handleGatewayEvent\<close> tells apart: a lifecycle event
  with a given phase, a tool event, an approval request.
\<close>

definition is_lifecycle :: "string \<Rightarrow> ustring \<Rightarrow> payload option \<Rightarrow> bool" where
  "is_lifecycle ph event payload =
     (event = lit ''agent.stream'' \<and> Option.bind payload pl_stream = Some (lit ''lifecycle'') \<and>
      lifecycle_phase payload = Some (JStr (lit ph)))"

definition is_tool :: "ustring \<Rightarrow> payload option \<Rightarrow> bool" where
  "is_tool event payload =
     (event = lit ''agent.stream'' \<and> Option.bind payload pl_stream = Some (lit ''tool''))"

definition is_tool_end :: "ustring \<Rightarrow> payload option \<Rightarrow> bool" where
  "is_tool_end event payload =
     (is_tool event payload \<and>
      (tool_phase payload = Some (JStr (lit ''end'')) \<or>
       tool_phase payload = Some (JStr (lit ''tool_end''))))"

definition is_approval :: "ustring \<Rightarrow> bool" where
  "is_approval event = (event = lit ''exec.approval.requested'')"

text \<open>A session key is tracked when the session-to-id map has it; a falsy key never is.\<close>

definition tracked_id :: "translator \<Rightarrow> ustring option \<Rightarrow> nat option" where
  "tracked_id tr sessionKey =
     (case sessionKey of None \<Rightarrow> None | Some k \<Rightarrow> if k = [] then None else map_of (sessionToId tr) k)"

text \<open>
  What holds of the translator in every state it reaches: the ids in the session-to-id map
  are \<open>1, 2, ...\<close> in order of insertion, up to the counter; no session key occurs twice; and
  the agents map has an agent for exactly the tracked keys, in the same order, carrying the id
  of its key.
\<close>

definition tr_inv :: "translator \<Rightarrow> bool" where
  "tr_inv tr =
     (map snd (sessionToId tr) = [1..<nextAgentId tr] \<and> 1 \<le> nextAgentId tr \<and>
      distinct (map fst (sessionToId tr)) \<and>
      map (\<lambda>entry. (fst entry, a_id (snd entry))) (agents tr) = sessionToId tr)"

text \<open>
  Every tool in every history carries an id the translator generated itself (the gateway
  supplied none).
\<close>

definition generated_only :: "translator \<Rightarrow> bool" where
  "generated_only tr =
     list_all (\<lambda>entry. list_all (\<lambda>tool. t_toolId tool \<in>
        set (map generated_tool_id [1..<toolIdCounter tr + 1])) (toolHistory (snd entry)))
       (agents tr)"

text \<open>The tool ids in the history of the agent of a session, and with them the done flags.\<close>

definition history_ids :: "translator \<Rightarrow> ustring \<Rightarrow> ustring list" where
  "history_ids tr k =
     (case map_of (agents tr) k of None \<Rightarrow> [] | Some agent \<Rightarrow> map t_toolId (toolHistory agent))"

definition history_done :: "translator \<Rightarrow> ustring \<Rightarrow> bool list" where
  "history_done tr k =
     (case map_of (agents tr) k of None \<Rightarrow> [] | Some agent \<Rightarrow> map t_done (toolHistory agent))"

section \<open>The dashboard server: initial state for a new observer\<close>

text \<open>
  What the asset loaders and the layout store return when \<open>sendInitialState\<close> calls them;
  \<open>None\<close> is their \<open>null\<close>. The loaded data is passed on without being inspected.
\<close>

record loaded =
  characterSprites :: "jsval option"
  floorTiles :: "jsval option"
  wallTiles :: "jsval option"
  furnitureAssets :: "(jsval \<times> jsval) option"
  storedLayout :: "jsval option"
  defaultLayout :: "jsval option"

definition getTrackedAgents :: "translator \<Rightarrow> TrackedAgent list" where
  "getTrackedAgents tr = map snd (agents tr)"

text \<open>
  \<open>sendTo\<close> writes to the observer's socket only when its \<open>readyState\<close> is 1 (open). The
  messages written so far are threaded through as \<open>sent\<close>.
\<close>

definition sendTo :: "nat \<Rightarrow> DashboardMessage \<Rightarrow> DashboardMessage list \<Rightarrow> DashboardMessage list" where
  "sendTo readyState msg sent = (if readyState = 1 then sent @ [msg] else sent)"

fun replay_tools ::
  "nat \<Rightarrow> nat \<Rightarrow> TrackedTool list \<Rightarrow> DashboardMessage list \<Rightarrow> DashboardMessage list" where
  "replay_tools rs aid [] sent = sent"
| "replay_tools rs aid (tool # tools) sent =
     replay_tools rs aid tools
       (if \<not> t_done tool then sendTo rs (AgentToolStart aid (t_toolId tool) (t_status tool)) sent
        else sent)"

fun replay_agents ::
  "nat \<Rightarrow> TrackedAgent list \<Rightarrow> DashboardMessage list \<Rightarrow> DashboardMessage list" where
  "replay_agents rs [] sent = sent"
| "replay_agents rs (agent # rest) sent =
     replay_agents rs rest
       (if a_status agent = Busy then
          replay_tools rs (a_id agent) (toolHistory agent)
            (sendTo rs (AgentStatus (a_id agent) Active) sent)
        else if a_status agent = Error then sendTo rs (AgentStatus (a_id agent) StatusError) sent
        else sent)"

definition sendInitialState ::
  "nat \<Rightarrow> loaded \<Rightarrow> GatewayConnectionState \<Rightarrow> translator \<Rightarrow> DashboardMessage list
     \<Rightarrow> DashboardMessage list" where
  "sendInitialState rs files gatewayState tr sent =
     (let s1 = (case characterSprites files of
                  None \<Rightarrow> sent | Some chars \<Rightarrow> sendTo rs (CharacterSpritesLoaded chars) sent);
          s2 = (case floorTiles files of
                  None \<Rightarrow> s1 | Some floor \<Rightarrow> sendTo rs (FloorTilesLoaded floor) s1);
          s3 = (case wallTiles files of
                  None \<Rightarrow> s2 | Some wall \<Rightarrow> sendTo rs (WallTilesLoaded wall) s2);
          s4 = (case furnitureAssets files of
                  None \<Rightarrow> s3
                | Some (catalog, sprites) \<Rightarrow> sendTo rs (FurnitureAssetsLoaded catalog sprites) s3);
          s5 = sendTo rs (SettingsLoaded True) s4;
          tracked = getTrackedAgents tr;
          s6 = sendTo rs (ExistingAgents (map a_id tracked)) s5;
          layout = nullish_or (storedLayout files) (defaultLayout files);
          s7 = sendTo rs (LayoutLoaded (case layout of None \<Rightarrow> JNull | Some l \<Rightarrow> l)) s6;
          s8 = replay_agents rs tracked s7
      in sendTo rs (ConnectionStatus gatewayState None) s8)"

text \<open>The messages of the snapshot by kind, for stating its shape.\<close>

definition asset_messages :: "loaded \<Rightarrow> DashboardMessage list" where
  "asset_messages files =
     (case characterSprites files of None \<Rightarrow> [] | Some chars \<Rightarrow> [CharacterSpritesLoaded chars]) @
     (case floorTiles files of None \<Rightarrow> [] | Some floor \<Rightarrow> [FloorTilesLoaded floor]) @
     (case wallTiles files of None \<Rightarrow> [] | Some wall \<Rightarrow> [WallTilesLoaded wall]) @
     (case furnitureAssets files of
        None \<Rightarrow> [] | Some (catalog, sprites) \<Rightarrow> [FurnitureAssetsLoaded catalog sprites])"

definition open_tools :: "TrackedAgent \<Rightarrow> TrackedTool list" where
  "open_tools agent = filter (\<lambda>tool. \<not> t_done tool) (toolHistory agent)"

definition agent_replay :: "TrackedAgent \<Rightarrow> DashboardMessage list" where
  "agent_replay agent =
     (if a_status agent = Busy then
        AgentStatus (a_id agent) Active #
        map (\<lambda>tool. AgentToolStart (a_id agent) (t_toolId tool) (t_status tool)) (open_tools agent)
      else if a_status agent = Error then [AgentStatus (a_id agent) StatusError]
      else [])"

text \<open>The layout sent with \<open>layoutLoaded\<close>: the stored one, else the default, else \<open>null\<close>.\<close>

definition layout_of :: "loaded \<Rightarrow> jsval" where
  "layout_of files =
     (case nullish_or (storedLayout files) (defaultLayout files) of None \<Rightarrow> JNull | Some l \<Rightarrow> l)"

text \<open>
  \<open>settingsLoaded\<close> and \<open>layoutLoaded\<close>, the two messages of the snapshot that carry
  neither assets nor agents nor the connection.
\<close>

definition is_settings_or_layout :: "DashboardMessage \<Rightarrow> bool" where
  "is_settings_or_layout m =
     (case m of SettingsLoaded b \<Rightarrow> True | LayoutLoaded l \<Rightarrow> True | _ \<Rightarrow> False)"

definition nothing_loaded :: loaded where
  "nothing_loaded = \<lparr>characterSprites = None, floorTiles = None, wallTiles = None,
     furnitureAssets = None, storedLayout = None, defaultLayout = None\<rparr>"

definition is_tool_done :: "DashboardMessage \<Rightarrow> bool" where
  "is_tool_done m = (case m of AgentToolDone aid tid \<Rightarrow> True | _ \<Rightarrow> False)"


section \<open>The gateway client\<close>

text \<open>
  The client runs on an event loop: sockets and timers belong to the runtime, which calls the
  handlers the client registered. The model keeps the fields of the class together with the
  part of the runtime the client acts on: the \<open>readyState\<close> of every socket created so far, the
  timers that are armed, and the trace of what the client did to the outside (events emitted
  to its listeners, promises settled, frames written, sockets closed), oldest first.
\<close>

datatype ReadyState = CONNECTING | OPEN | CLOSING | CLOSED

text \<open>
  What a timer does when it fires: the reconnect callback of \<open>scheduleReconnect\<close>, the
  timeout callback of \<open>request\<close> (for a request id and method) or the keepalive interval.
\<close>

datatype timer_kind = ReconnectTimer | RequestTimer ustring ustring | TickTimer

text \<open>The payload of a response as far as it is read: \<open>type\<close> and \<open>policy.tickIntervalMs\<close>.\<close>

record res_payload =
  rp_type :: "jsval option"
  rp_tickIntervalMs :: "nat option"

text \<open>
  A parsed inbound frame: an event with its name and payload; a response with its id, the
  truthiness of \<open>ok\<close>, its payload and \<open>error.message\<close>; or anything else.
\<close>

datatype frame =
    EventFrame ustring "payload option"
  | ResFrame ustring bool "res_payload option" "ustring option"
  | OtherFrame

text \<open>An outbound frame: a request with id and method, or the keepalive \<open>tick\<close> event.\<close>

datatype out_frame = ReqFrame ustring ustring | TickFrame

datatype effect =
    EmitConnectionState GatewayConnectionState "ustring option"
  | EmitConnected
  | EmitGatewayEvent ustring "payload option"
  | Resolve ustring "res_payload option"
  | Reject ustring ustring
  | RejectNotConnected GatewayConnectionState
  | Send nat out_frame
  | Close nat

record gateway_client =
  ws :: "nat option"
  state :: GatewayConnectionState
  reconnectTimer :: "nat option"
  reconnectDelay :: nat
  maxReconnectDelay :: nat
  tickTimer :: "nat option"
  requestId :: nat
  pendingRequests :: "(ustring \<times> nat) list"
  sockets :: "(nat \<times> ReadyState) list"
  timers :: "(nat \<times> timer_kind \<times> nat) list"
  nextSocket :: nat
  nextTimer :: nat
  effects :: "effect list"

text \<open>
  \<open>pendingRequests\<close> maps a request id to the handle of its timeout timer; the \<open>resolve\<close> and
  \<open>reject\<close> callbacks of the entry are those of the promise of that request, so settling is
  recorded as \<open>Resolve\<close> or \<open>Reject\<close> with the request id.
\<close>

definition gw_init :: gateway_client where
  "gw_init = \<lparr>ws = None, state = Disconnected, reconnectTimer = None, reconnectDelay = 1000,
     maxReconnectDelay = 30000, tickTimer = None, requestId = 0, pendingRequests = [],
     sockets = [], timers = [], nextSocket = 0, nextTimer = 0, effects = []\<rparr>"

definition emit :: "effect \<Rightarrow> gateway_client \<Rightarrow> gateway_client" where
  "emit e c = c\<lparr>effects := effects c @ [e]\<rparr>"

definition readyState :: "gateway_client \<Rightarrow> nat \<Rightarrow> ReadyState option" where
  "readyState c h = map_of (sockets c) h"

definition set_readyState :: "nat \<Rightarrow> ReadyState \<Rightarrow> gateway_client \<Rightarrow> gateway_client" where
  "set_readyState h r c = c\<lparr>sockets := map_set h r (sockets c)\<rparr>"

text \<open>\<open>setTimeout\<close> and \<open>setInterval\<close> arm a timer and return its fresh handle.\<close>

definition setTimeout :: "timer_kind \<Rightarrow> nat \<Rightarrow> gateway_client \<Rightarrow> nat \<times> gateway_client" where
  "setTimeout kind ms c =
     (nextTimer c, c\<lparr>timers := timers c @ [(nextTimer c, kind, ms)], nextTimer := nextTimer c + 1\<rparr>)"

definition clearTimeout :: "nat \<Rightarrow> gateway_client \<Rightarrow> gateway_client" where
  "clearTimeout h c = c\<lparr>timers := filter (\<lambda>entry. fst entry \<noteq> h) (timers c)\<rparr>"

text \<open>\<open>Map.delete\<close>.\<close>

definition map_delete :: "'k \<Rightarrow> ('k \<times> 'v) list \<Rightarrow> ('k \<times> 'v) list" where
  "map_delete k m = filter (\<lambda>entry. fst entry \<noteq> k) m"

definition setState ::
  "GatewayConnectionState \<Rightarrow> ustring option \<Rightarrow> gateway_client \<Rightarrow> gateway_client" where
  "setState st detail c = emit (EmitConnectionState st detail) (c\<lparr>state := st\<rparr>)"

definition sendRaw :: "out_frame \<Rightarrow> gateway_client \<Rightarrow> gateway_client" where
  "sendRaw f c =
     (case ws c of
        None \<Rightarrow> c
      | Some h \<Rightarrow> if readyState c h = Some OPEN then emit (Send h f) c else c)"

definition request_id :: "nat \<Rightarrow> ustring" where
  "request_id n = lit ''pa-'' @ show_nat n"

definition nextRequestId :: "gateway_client \<Rightarrow> ustring \<times> gateway_client" where
  "nextRequestId c = (request_id (requestId c + 1), c\<lparr>requestId := requestId c + 1\<rparr>)"

definition scheduleReconnect :: "gateway_client \<Rightarrow> gateway_client" where
  "scheduleReconnect c =
     (if reconnectTimer c \<noteq> None then c
      else
        (let (h, c1) = setTimeout ReconnectTimer (reconnectDelay c) c
         in c1\<lparr>reconnectTimer := Some h,
               reconnectDelay := min (reconnectDelay c * 2) (maxReconnectDelay c)\<rparr>))"

text \<open>
  \<open>connect\<close>. \<open>thrown\<close> is the exception of \<open>new WebSocket(url)\<close>, if it throws. The four
  handlers registered on the new socket are \<open>on_open\<close>, \<open>on_message\<close>, \<open>on_close\<close> below
  (the error handler only logs).
\<close>

definition connect :: "ustring option \<Rightarrow> gateway_client \<Rightarrow> gateway_client" where
  "connect thrown c =
     (if (case ws c of
            None \<Rightarrow> False
          | Some h \<Rightarrow> readyState c h = Some OPEN \<or> readyState c h = Some CONNECTING)
      then c
      else
        (let c1 = setState Connecting None c
         in case thrown of
              Some e \<Rightarrow>
                scheduleReconnect
                  (setState GwError (Some (lit ''Failed to create WebSocket: '' @ e)) c1)
            | None \<Rightarrow>
                c1\<lparr>ws := Some (nextSocket c1),
                   sockets := sockets c1 @ [(nextSocket c1, CONNECTING)],
                   nextSocket := nextSocket c1 + 1\<rparr>))"

definition sendConnectRequest :: "gateway_client \<Rightarrow> gateway_client" where
  "sendConnectRequest c =
     (let (rid, c1) = nextRequestId c in sendRaw (ReqFrame rid (lit ''connect'')) c1)"

definition onConnected :: "res_payload \<Rightarrow> gateway_client \<Rightarrow> gateway_client" where
  "onConnected helloPayload c =
     (let c1 = setState Connected None (c\<lparr>reconnectDelay := 1000\<rparr>);
          tickMs = (case rp_tickIntervalMs helloPayload of None \<Rightarrow> 15000 | Some ms \<Rightarrow> ms);
          (h, c2) = setTimeout TickTimer tickMs c1
      in emit EmitConnected (c2\<lparr>tickTimer := Some h\<rparr>))"

definition handleFrame :: "frame \<Rightarrow> gateway_client \<Rightarrow> gateway_client" where
  "handleFrame fr c =
     (case fr of
        EventFrame event payload \<Rightarrow>
          if event = lit ''connect.challenge'' then sendConnectRequest c
          else emit (EmitGatewayEvent event payload) c
      | ResFrame rid ok payload err \<Rightarrow>
          (case map_of (pendingRequests c) rid of
             None \<Rightarrow> c
           | Some timer \<Rightarrow>
               (let c1 = clearTimeout timer c;
                    c2 = c1\<lparr>pendingRequests := map_delete rid (pendingRequests c1)\<rparr>
                in if ok then
                     emit (Resolve rid payload)
                       (case payload of
                          None \<Rightarrow> c2
                        | Some p \<Rightarrow>
                            if rp_type p = Some (JStr (lit ''hello-ok'')) then onConnected p c2
                            else c2)
                   else
                     emit (Reject rid (case err of None \<Rightarrow> lit ''Request failed'' | Some m \<Rightarrow> m))
                       c2))
      | OtherFrame \<Rightarrow> c)"

text \<open>
  \<open>request\<close> with its method and timeout (the parameters are only passed on). A request
  made while the state is not \<open>connected\<close> is rejected at once and never registered.
\<close>

definition request :: "ustring \<Rightarrow> nat \<Rightarrow> gateway_client \<Rightarrow> gateway_client" where
  "request method timeoutMs c =
     (if state c \<noteq> Connected then emit (RejectNotConnected (state c)) c
      else
        (let (rid, c1) = nextRequestId c;
             (timer, c2) = setTimeout (RequestTimer rid method) timeoutMs c1;
             c3 = c2\<lparr>pendingRequests := map_set rid timer (pendingRequests c2)\<rparr>
         in sendRaw (ReqFrame rid method) c3))"

fun reject_all :: "(ustring \<times> nat) list \<Rightarrow> gateway_client \<Rightarrow> gateway_client" where
  "reject_all [] c = c"
| "reject_all ((rid, timer) # ps) c =
     reject_all ps (emit (Reject rid (lit ''Connection closed'')) (clearTimeout timer c))"

definition cleanup :: "gateway_client \<Rightarrow> gateway_client" where
  "cleanup c =
     (let c1 = (case tickTimer c of
                  None \<Rightarrow> c
                | Some t \<Rightarrow> (clearTimeout t c)\<lparr>tickTimer := None\<rparr>);
          c2 = reject_all (pendingRequests c1) c1
      in c2\<lparr>pendingRequests := [], ws := None\<rparr>)"

text \<open>\<open>ws.close()\<close> on a socket: the call is recorded and the socket starts closing.\<close>

definition socket_close :: "nat \<Rightarrow> gateway_client \<Rightarrow> gateway_client" where
  "socket_close h c = set_readyState h CLOSING (emit (Close h) c)"

definition disconnect :: "gateway_client \<Rightarrow> gateway_client" where
  "disconnect c =
     (let c1 = (case reconnectTimer c of
                  None \<Rightarrow> c
                | Some t \<Rightarrow> (clearTimeout t c)\<lparr>reconnectTimer := None\<rparr>);
          c2 = cleanup c1;
          c3 = (case ws c2 of
                  None \<Rightarrow> c2
                | Some h \<Rightarrow> (socket_close h c2)\<lparr>ws := None\<rparr>)
      in setState Disconnected None c3)"

definition on_open :: "gateway_client \<Rightarrow> gateway_client" where
  "on_open c = setState Handshaking None c"

definition on_close :: "gateway_client \<Rightarrow> gateway_client" where
  "on_close c = scheduleReconnect (setState Disconnected None (cleanup c))"

text \<open>
  A timer that fires runs its callback; a timeout (not the interval) is then no longer armed.
\<close>

definition fire_timer :: "nat \<Rightarrow> ustring option \<Rightarrow> gateway_client \<Rightarrow> gateway_client" where
  "fire_timer h thrown c =
     (case map_of (timers c) h of
        None \<Rightarrow> c
      | Some (ReconnectTimer, ms) \<Rightarrow> connect thrown ((clearTimeout h c)\<lparr>reconnectTimer := None\<rparr>)
      | Some (RequestTimer rid method, ms) \<Rightarrow>
          emit (Reject rid (lit ''Request '' @ method @ lit '' timed out''))
            ((clearTimeout h c)\<lparr>pendingRequests := map_delete rid (pendingRequests c)\<rparr>)
      | Some (TickTimer, ms) \<Rightarrow> sendRaw TickFrame c)"

text \<open>
  What can happen to the client: a call of one of its public methods, an event of one of its
  sockets, or a timer firing. The runtime delivers \<open>open\<close> only to a connecting socket, a
  message only on an open one, \<open>close\<close> once per socket, and fires only armed timers;
  anything else leaves the client as it is. An unparsable message is \<open>OtherFrame\<close>.
\<close>

datatype gw_op =
    CallConnect "ustring option"
  | CallRequest ustring nat
  | CallDisconnect
  | SocketOpen nat
  | SocketMessage nat frame
  | SocketClose nat
  | SocketError nat
  | TimerFires nat "ustring option"

definition gw_step :: "gw_op \<Rightarrow> gateway_client \<Rightarrow> gateway_client" where
  "gw_step op c =
     (case op of
        CallConnect thrown \<Rightarrow> connect thrown c
      | CallRequest method timeoutMs \<Rightarrow> request method timeoutMs c
      | CallDisconnect \<Rightarrow> disconnect c
      | SocketOpen h \<Rightarrow>
          if readyState c h = Some CONNECTING then on_open (set_readyState h OPEN c) else c
      | SocketMessage h fr \<Rightarrow> if readyState c h = Some OPEN then handleFrame fr c else c
      | SocketClose h \<Rightarrow>
          if readyState c h = None \<or> readyState c h = Some CLOSED then c
          else on_close (set_readyState h CLOSED c)
      | SocketError h \<Rightarrow> c
      | TimerFires h thrown \<Rightarrow> fire_timer h thrown c)"

fun gw_run :: "gw_op list \<Rightarrow> gateway_client \<Rightarrow> gateway_client" where
  "gw_run [] c = c"
| "gw_run (op # ops) c = gw_run ops (gw_step op c)"

text \<open>The response the gateway sends to accept the \<open>connect\<close> request with id \<open>rid\<close>.\<close>

definition hello_ok :: "ustring \<Rightarrow> frame" where
  "hello_ok rid =
     ResFrame rid True (Some \<lparr>rp_type = Some (JStr (lit ''hello-ok'')),
                              rp_tickIntervalMs = Some 15000\<rparr>) None"

definition challenge :: frame where
  "challenge = EventFrame (lit ''connect.challenge'') None"

text \<open>How often the promise of request \<open>rid\<close> has been settled so far.\<close>

fun is_settle :: "ustring \<Rightarrow> effect \<Rightarrow> bool" where
  "is_settle rid (Resolve r p) = (r = rid)"
| "is_settle rid (Reject r m) = (r = rid)"
| "is_settle rid e = False"

definition settles :: "ustring \<Rightarrow> gateway_client \<Rightarrow> nat" where
  "settles rid c = length (filter (is_settle rid) (effects c))"

definition is_pending :: "ustring \<Rightarrow> gateway_client \<Rightarrow> bool" where
  "is_pending rid c = (map_of (pendingRequests c) rid \<noteq> None)"


text \<open>
  The request ids the client has generated so far are \<open>pa-1\<close> to \<open>pa-n\<close> for the counter
  value \<open>n\<close>.
\<close>

definition generated_ids :: "gateway_client \<Rightarrow> ustring list" where
  "generated_ids c = map request_id [1..<requestId c + 1]"

text \<open>
  What holds of the pending requests whenever the client is between two events: no request id
  is pending twice, every armed timeout timer belongs to the pending request it was armed for,
  and every pending id is one the client generated.
\<close>

definition timer_of_pending :: "gateway_client \<Rightarrow> nat \<times> timer_kind \<times> nat \<Rightarrow> bool" where
  "timer_of_pending c entry =
     (case fst (snd entry) of
        RequestTimer rid method \<Rightarrow> map_of (pendingRequests c) rid = Some (fst entry)
      | _ \<Rightarrow> True)"

definition gw_inv :: "gateway_client \<Rightarrow> bool" where
  "gw_inv c =
     (distinct (map fst (pendingRequests c)) \<and>
      list_all (timer_of_pending c) (timers c) \<and>
      list_all (\<lambda>entry. fst entry \<in> set (generated_ids c)) (pendingRequests c))"

text \<open>Settling effects of any request, and timers other than request timeouts.\<close>

fun is_settlement :: "effect \<Rightarrow> bool" where
  "is_settlement (Resolve r p) = True"
| "is_settlement (Reject r m) = True"
| "is_settlement e = False"

fun is_request_timer :: "timer_kind \<Rightarrow> bool" where
  "is_request_timer (RequestTimer rid method) = True"
| "is_request_timer k = False"

text \<open>
  A step from \<open>c\<close> to \<open>c'\<close> is quiet when it leaves the pending requests alone: the pending
  map is the same, no promise is settled, request ids are only generated, and the only timers
  armed in \<open>c'\<close> but not in \<open>c\<close> are not request timeouts.
\<close>

definition quiet :: "gateway_client \<Rightarrow> gateway_client \<Rightarrow> bool" where
  "quiet c c' =
     (pendingRequests c' = pendingRequests c \<and> requestId c \<le> requestId c' \<and>
      list_all (\<lambda>entry. entry \<in> set (timers c) \<or> \<not> is_request_timer (fst (snd entry))) (timers c') \<and>
      filter is_settlement (effects c') = filter is_settlement (effects c))"



text \<open>
  The reconnect timers that are armed: at most one, and it is the one the field
  \<open>reconnectTimer\<close> holds.
\<close>

definition is_reconnect_timer :: "nat \<times> timer_kind \<times> nat \<Rightarrow> bool" where
  "is_reconnect_timer entry = (fst (snd entry) = ReconnectTimer)"

definition reconnect_inv :: "gateway_client \<Rightarrow> bool" where
  "reconnect_inv c =
     (list_all (\<lambda>entry. reconnectTimer c = Some (fst entry)) (filter is_reconnect_timer (timers c)) \<and>
      length (filter is_reconnect_timer (timers c)) \<le> 1)"

text \<open>
  A first connection attempt that fails, the reconnect timer firing, and a second attempt up
  to the challenge, the connect request \<open>pa-1\<close> being sent.
\<close>

definition second_attempt :: "gw_op list" where
  "second_attempt = [CallConnect None, SocketClose 0, TimerFires 0 None, SocketOpen 1,
     SocketMessage 1 challenge]"

section \<open>The observer-side WebSocket client\<close>

text \<open>
  The browser client, as far as sending goes: its current socket, the \<open>readyState\<close> of the
  sockets it created, the send buffer with its capacity, and \<open>wire\<close>, the data handed to
  \<open>send\<close> with the socket it was written to, oldest first. Messages enter the model as the
  text \<open>JSON.stringify\<close> makes of them.
\<close>

datatype ConnectionState = WsConnecting | WsConnected | WsDisconnected | WsReconnecting

record ws_client =
  wc_ws :: "nat option"
  wc_reconnectDelay :: nat
  wc_state :: ConnectionState
  sendBuffer :: "ustring list"
  maxBufferSize :: nat
  wc_sockets :: "(nat \<times> ReadyState) list"
  wire :: "(nat \<times> ustring) list"

text \<open>The client when its constructor has returned, the first socket still connecting.\<close>

definition ws_new :: ws_client where
  "ws_new = \<lparr>wc_ws = Some 0, wc_reconnectDelay = 1000, wc_state = WsConnecting, sendBuffer = [],
     maxBufferSize = 100, wc_sockets = [(0, CONNECTING)], wire = []\<rparr>"

text \<open>
  \<open>WebSocket.send\<close> of the browser: it throws on a socket that is still connecting, writes
  on an open one and discards the data on a closing or closed one.
\<close>

datatype ws_error = InvalidStateError

definition browser_send :: "nat \<Rightarrow> ustring \<Rightarrow> ws_client \<Rightarrow> (ws_error \<times> ws_client) + ws_client" where
  "browser_send h msg c =
     (case map_of (wc_sockets c) h of
        Some OPEN \<Rightarrow> Inr (c\<lparr>wire := wire c @ [(h, msg)]\<rparr>)
      | Some CONNECTING \<Rightarrow> Inl (InvalidStateError, c)
      | _ \<Rightarrow> Inr c)"

definition ws_is_open :: "ws_client \<Rightarrow> bool" where
  "ws_is_open c = (case wc_ws c of None \<Rightarrow> False | Some h \<Rightarrow> map_of (wc_sockets c) h = Some OPEN)"

definition postMessage :: "ustring \<Rightarrow> ws_client \<Rightarrow> ws_client" where
  "postMessage serialized c =
     (if ws_is_open c then
        (case wc_ws c of None \<Rightarrow> c | Some h \<Rightarrow> c\<lparr>wire := wire c @ [(h, serialized)]\<rparr>)
      else
        (let c1 = c\<lparr>sendBuffer := sendBuffer c @ [serialized]\<rparr>
         in if length (sendBuffer c1) > maxBufferSize c1
            then c1\<lparr>sendBuffer := tl (sendBuffer c1)\<rparr> else c1))"

text \<open>The loop \<open>for (const msg of this.sendBuffer) this.ws?.send(msg)\<close>.\<close>

fun flush :: "ustring list \<Rightarrow> ws_client \<Rightarrow> (ws_error \<times> ws_client) + ws_client" where
  "flush [] c = Inr c"
| "flush (msg # msgs) c =
     (case wc_ws c of
        None \<Rightarrow> flush msgs c
      | Some h \<Rightarrow> (case browser_send h msg c of Inl e \<Rightarrow> Inl e | Inr c' \<Rightarrow> flush msgs c'))"

definition dq :: ustring where
  "dq = [34]"

text \<open>The serialized first-contact message, an object whose \<open>type\<close> is \<open>webviewReady\<close>.\<close>

definition webviewReady :: ustring where
  "webviewReady = lit ''{'' @ dq @ lit ''type'' @ dq @ lit '':'' @ dq @ lit ''webviewReady'' @ dq @ lit ''}''"

definition onopen :: "ws_client \<Rightarrow> (ws_error \<times> ws_client) + ws_client" where
  "onopen c =
     (let c1 = c\<lparr>wc_state := WsConnected, wc_reconnectDelay := 1000\<rparr>
      in case flush (sendBuffer c1) c1 of
           Inl e \<Rightarrow> Inl e
         | Inr c2 \<Rightarrow> Inr (postMessage webviewReady (c2\<lparr>sendBuffer := []\<rparr>)))"

text \<open>The runtime opens a connecting socket and calls its \<open>onopen\<close> handler.\<close>

definition socket_opens :: "nat \<Rightarrow> ws_client \<Rightarrow> (ws_error \<times> ws_client) + ws_client" where
  "socket_opens h c =
     (if map_of (wc_sockets c) h = Some CONNECTING
      then onopen (c\<lparr>wc_sockets := map_set h OPEN (wc_sockets c)\<rparr>)
      else Inr c)"

fun post_all :: "ustring list \<Rightarrow> ws_client \<Rightarrow> ws_client" where
  "post_all [] c = c"
| "post_all (msg # msgs) c = post_all msgs (postMessage msg c)"


section \<open>Properties of tool status formatting\<close>

lemma lit_eq_iff [simp]: "lit a = lit b \<longleftrightarrow> a = b"
  by (simp add: lit_def inj_map_eq_map inj_on_def)

lemma lit_Nil [simp]: "lit [] = []"
  by (simp add: lit_def)

lemma lit_eq_Nil [simp]: "lit a = [] \<longleftrightarrow> a = []"
  by (simp add: lit_def)

text \<open>
  C5. \<open>formatToolStatus\<close> is a function of the tool name and the input alone. For
  \<open>Bash\<close> with the command \<open>npm run test\<close> it gives \<open>Running: npm run test\<close>; for \<open>Read\<close> with the
  file path \<open>/a/b/c.md\<close> it gives \<open>Reading c.md\<close>; for \<open>Bash\<close> with any command of 90 code
  units it gives \<open>Running: \<close> followed by the first 60 code units of the command and the one
  code unit 8230 (U+2026, the ellipsis), 70 code units in all; for any tool name outside the
  known ones it gives \<open>Using \<close> followed by the name.
\<close>

theorem formatToolStatus_examples:
  "formatToolStatus (lit ''Bash'') (empty_input\<lparr>command := Some (lit ''npm run test'')\<rparr>)
     = lit ''Running: npm run test''
   \<and> formatToolStatus (lit ''Read'') (empty_input\<lparr>file_path := Some (JStr (lit ''/a/b/c.md''))\<rparr>)
     = lit ''Reading c.md''
   \<and> (length cmd = 90 \<and> command input = Some cmd \<longrightarrow>
        formatToolStatus (lit ''Bash'') input = lit ''Running: '' @ take 60 cmd @ [8230]
        \<and> length (formatToolStatus (lit ''Bash'') input) = 70)
   \<and> (toolName \<notin> set known_tools \<longrightarrow>
        formatToolStatus toolName input' = lit ''Using '' @ toolName)"
proof -
  have bash: "formatToolStatus (lit ''Bash'') (empty_input\<lparr>command := Some (lit ''npm run test'')\<rparr>)
      = lit ''Running: npm run test''"
    by (simp add: formatToolStatus_def empty_input_def Let_def lit_def)
  have read: "formatToolStatus (lit ''Read'')
      (empty_input\<lparr>file_path := Some (JStr (lit ''/a/b/c.md''))\<rparr>) = lit ''Reading c.md''"
    by (simp add: formatToolStatus_def empty_input_def basename_def pop_def lit_def)
  have long: "length cmd = 90 \<and> command input = Some cmd \<longrightarrow>
      formatToolStatus (lit ''Bash'') input = lit ''Running: '' @ take 60 cmd @ [8230]
      \<and> length (formatToolStatus (lit ''Bash'') input) = 70"
    by (simp add: formatToolStatus_def Let_def ellipsis_def lit_def)
  have other: "toolName \<notin> set known_tools \<longrightarrow>
      formatToolStatus toolName input' = lit ''Using '' @ toolName"
    by (simp add: formatToolStatus_def known_tools_def)
  from bash read long other show ?thesis by blast
qed

theorem formatToolStatus_examples_witness:
  "length (replicate 90 (97::nat)) = 90
   \<and> command (empty_input\<lparr>command := Some (replicate 90 97)\<rparr>) = Some (replicate 90 97)
   \<and> formatToolStatus (lit ''Bash'') (empty_input\<lparr>command := Some (replicate 90 97)\<rparr>)
       = lit ''Running: '' @ replicate 60 97 @ [8230]
   \<and> length (formatToolStatus (lit ''Bash'') (empty_input\<lparr>command := Some (replicate 90 97)\<rparr>)) = 70
   \<and> lit ''Deploy'' \<notin> set known_tools
   \<and> formatToolStatus (lit ''Deploy'') empty_input = lit ''Using Deploy''"
proof -
  have len: "length (replicate 90 (97::nat)) = 90" by simp
  have cmd: "command (empty_input\<lparr>command := Some (replicate 90 97)\<rparr>) = Some (replicate 90 97)"
    by simp
  have unknown: "lit ''Deploy'' \<notin> set known_tools"
    by (simp add: known_tools_def)
  have tk: "take 60 (replicate 90 (97::nat)) = replicate 60 97" by simp
  have l2: "lit ''Using '' @ lit ''Deploy'' = lit ''Using Deploy''" by (simp add: lit_def)
  have l9: "length (lit ''Running: '') = 9" by (simp add: lit_def)
  from formatToolStatus_examples
    [of "replicate 90 97" "empty_input\<lparr>command := Some (replicate 90 97)\<rparr>" "lit ''Deploy''"
        empty_input]
    len cmd unknown tk l2 l9
  show ?thesis by simp
qed

section \<open>Properties of the event translator\<close>

lemma map_of_map_set: "map_of (map_set k v m) k' = (if k' = k then Some v else map_of m k')"
  by (induction m) auto

lemma map_set_new: "map_of m k = None \<Longrightarrow> map_set k v m = m @ [(k, v)]"
  by (induction m) (auto split: if_splits)

lemma map_set_same: "map_of m k = Some v \<Longrightarrow> map_set k v m = m"
  by (induction m) (auto split: if_splits)

lemma map_set_proj:
  "map_of m k = Some a \<Longrightarrow> g a' = g a \<Longrightarrow>
   map (\<lambda>entry. (fst entry, g (snd entry))) (map_set k a' m) = map (\<lambda>entry. (fst entry, g (snd entry))) m"
  by (induction m) (auto split: if_splits)

lemma map_of_proj:
  "map_of (map (\<lambda>entry. (fst entry, g (snd entry))) m) k = map_option g (map_of m k)"
  by (induction m) auto

lemma inv_agents_of_ids:
  "tr_inv tr \<Longrightarrow> map_of (sessionToId tr) k = map_option a_id (map_of (agents tr) k)"
  unfolding tr_inv_def using map_of_proj[of a_id "agents tr" k] by simp

lemma lifecycle_inv:
  "tr_inv tr \<Longrightarrow> tr_inv (fst (handleLifecycleEvent now p tr))"
  apply (frule inv_agents_of_ids[where k="the (payload_sessionKey p)"])
  apply (auto simp: handleLifecycleEvent_def Let_def tr_inv_def map_set_new map_set_proj split: option.splits)
  done

lemma tool_inv:
  "tr_inv tr \<Longrightarrow> tr_inv (fst (handleToolEvent now p tr))"
  apply (frule inv_agents_of_ids[where k="the (payload_sessionKey p)"])
  apply (auto simp: handleToolEvent_def Let_def tr_inv_def map_set_proj split: option.splits)
  done

lemma approval_inv:
  "tr_inv tr \<Longrightarrow> tr_inv (fst (handleApprovalRequest p tr))"
  apply (frule inv_agents_of_ids[where k="the (Option.bind p ev_sessionKey)"])
  apply (auto simp: handleApprovalRequest_def Let_def tr_inv_def map_set_proj split: option.splits)
  done

lemma step_inv: "tr_inv tr \<Longrightarrow> tr_inv (step e tr)"
  by (cases e) (simp add: step_def handleGatewayEvent_def Let_def lifecycle_inv tool_inv approval_inv)

lemma run_inv: "tr_inv tr \<Longrightarrow> tr_inv (run evs tr)"
  by (induction evs arbitrary: tr) (simp_all add: step_inv)

lemma init_inv: "tr_inv init_translator"
  by (simp add: tr_inv_def init_translator_def)

lemma lifecycle_prefix:
  "\<exists>new. sessionToId (fst (handleLifecycleEvent now p tr)) = sessionToId tr @ new"
  by (auto simp: handleLifecycleEvent_def Let_def map_set_new split: option.splits)

lemma tool_same:
  "sessionToId (fst (handleToolEvent now p tr)) = sessionToId tr"
  by (auto simp: handleToolEvent_def Let_def split: option.splits)

lemma approval_same:
  "sessionToId (fst (handleApprovalRequest p tr)) = sessionToId tr"
  by (auto simp: handleApprovalRequest_def Let_def split: option.splits)

lemma step_prefix: "\<exists>new. sessionToId (step e tr) = sessionToId tr @ new"
  by (cases e) (simp add: step_def handleGatewayEvent_def Let_def lifecycle_prefix tool_same approval_same)

lemma run_prefix: "\<exists>new. sessionToId (run evs tr) = sessionToId tr @ new"
proof (induction evs arbitrary: tr)
  case Nil
  then show ?case by simp
next
  case (Cons e evs)
  obtain n1 where n1: "sessionToId (step e tr) = sessionToId tr @ n1"
    using step_prefix by blast
  obtain n2 where n2: "sessionToId (run evs (step e tr)) = sessionToId (step e tr) @ n2"
    using Cons.IH by blast
  show ?case using n1 n2 by simp
qed

lemma inv_ids_inj:
  assumes "tr_inv tr" "map_of (sessionToId tr) k1 = Some i" "map_of (sessionToId tr) k2 = Some i"
  shows "k1 = k2"
proof -
  have d: "distinct (map snd (sessionToId tr))" using assms(1) by (simp add: tr_inv_def)
  have m1: "(k1, i) \<in> set (sessionToId tr)" using assms(2) by (rule map_of_SomeD)
  have m2: "(k2, i) \<in> set (sessionToId tr)" using assms(3) by (rule map_of_SomeD)
  from d m1 m2 show ?thesis
    by (metis distinct_map inj_onD prod.collapse snd_conv fst_conv)
qed

lemma map_of_append_Some: "map_of xs k = Some v \<Longrightarrow> map_of (xs @ ys) k = Some v"
  by (simp add: map_add_Some_iff)

lemma start_new:
  "is_lifecycle ''start'' event payload \<Longrightarrow> payload_sessionKey payload = Some k \<Longrightarrow> k \<noteq> [] \<Longrightarrow>
   map_of (sessionToId tr) k = None \<Longrightarrow>
   sessionToId (step (now, event, payload) tr) = sessionToId tr @ [(k, nextAgentId tr)]"
  by (simp add: step_def handleGatewayEvent_def is_lifecycle_def handleLifecycleEvent_def Let_def map_set_new)

lemma inv_next: "tr_inv tr \<Longrightarrow> nextAgentId tr = length (sessionToId tr) + 1"
proof -
  assume a: "tr_inv tr"
  have "length (sessionToId tr) = length (map snd (sessionToId tr))" by simp
  also have "\<dots> = length [1..<nextAgentId tr]" using a by (simp only: tr_inv_def)
  also have "\<dots> = nextAgentId tr - 1" by simp
  finally show ?thesis using a by (simp add: tr_inv_def)
qed

text \<open>
  C1. In every state the translator reaches from its initial state by handling gateway events
  (lifecycle \<open>start\<close> events and any others), the ids in the session-to-id map are
  \<open>1, 2, 3, ...\<close> in the order in which the sessions were first seen, no session key occurs
  twice and no id belongs to two session keys; a \<open>start\<close> event with a new session key appends
  that key with the next id. The map only grows at its end: whatever events follow, an entry
  once made is still there with the same id, and its id is never found under another key.
  (Ids are unbounded naturals here; the source counts in JavaScript numbers.)
\<close>

theorem session_ids_assigned_once:
  "tr = run evs init_translator \<and> tr' = run evs' tr \<longrightarrow>
     map snd (sessionToId tr) = [1..<length (sessionToId tr) + 1]
   \<and> distinct (map fst (sessionToId tr))
   \<and> (map_of (sessionToId tr) k1 = Some i \<and> map_of (sessionToId tr) k2 = Some i \<longrightarrow> k1 = k2)
   \<and> (is_lifecycle ''start'' event payload \<and> payload_sessionKey payload = Some k \<and> k \<noteq> [] \<and>
        map_of (sessionToId tr) k = None \<longrightarrow>
        sessionToId (step (now, event, payload) tr) = sessionToId tr @ [(k, length (sessionToId tr) + 1)])
   \<and> (\<exists>new. sessionToId tr' = sessionToId tr @ new)
   \<and> (map_of (sessionToId tr) k1 = Some i \<longrightarrow> map_of (sessionToId tr') k1 = Some i)
   \<and> (map_of (sessionToId tr) k1 = Some i \<and> map_of (sessionToId tr') k2 = Some i \<longrightarrow> k2 = k1)"
proof (intro impI, elim conjE)
  assume tr: "tr = run evs init_translator" and tr': "tr' = run evs' tr"
  have inv: "tr_inv tr" unfolding tr by (rule run_inv[OF init_inv])
  have inv': "tr_inv tr'" unfolding tr' by (rule run_inv[OF inv])
  have nx: "nextAgentId tr = length (sessionToId tr) + 1" by (rule inv_next[OF inv])
  obtain new where new: "sessionToId tr' = sessionToId tr @ new"
    unfolding tr' using run_prefix by blast
  have keep: "map_of (sessionToId tr') k1 = Some i" if "map_of (sessionToId tr) k1 = Some i"
    using that new map_of_append_Some by simp
  have c1: "map snd (sessionToId tr) = [1..<length (sessionToId tr) + 1]"
    using inv nx by (simp add: tr_inv_def)
  have c2: "distinct (map fst (sessionToId tr))" using inv by (simp add: tr_inv_def)
  have c3: "map_of (sessionToId tr) k1 = Some i \<and> map_of (sessionToId tr) k2 = Some i \<longrightarrow> k1 = k2"
    using inv_ids_inj[OF inv] by blast
  have c4: "is_lifecycle ''start'' event payload \<and> payload_sessionKey payload = Some k \<and> k \<noteq> [] \<and>
        map_of (sessionToId tr) k = None \<longrightarrow>
        sessionToId (step (now, event, payload) tr) = sessionToId tr @ [(k, length (sessionToId tr) + 1)]"
    using start_new[of event payload k tr now] nx by simp
  have c7: "map_of (sessionToId tr) k1 = Some i \<and> map_of (sessionToId tr') k2 = Some i \<longrightarrow> k2 = k1"
    using keep inv_ids_inj[OF inv'] by blast
  from c1 c2 c3 c4 new keep c7 show "map snd (sessionToId tr) = [1..<length (sessionToId tr) + 1]
   \<and> distinct (map fst (sessionToId tr))
   \<and> (map_of (sessionToId tr) k1 = Some i \<and> map_of (sessionToId tr) k2 = Some i \<longrightarrow> k1 = k2)
   \<and> (is_lifecycle ''start'' event payload \<and> payload_sessionKey payload = Some k \<and> k \<noteq> [] \<and>
        map_of (sessionToId tr) k = None \<longrightarrow>
        sessionToId (step (now, event, payload) tr) = sessionToId tr @ [(k, length (sessionToId tr) + 1)])
   \<and> (\<exists>new. sessionToId tr' = sessionToId tr @ new)
   \<and> (map_of (sessionToId tr) k1 = Some i \<longrightarrow> map_of (sessionToId tr') k1 = Some i)
   \<and> (map_of (sessionToId tr) k1 = Some i \<and> map_of (sessionToId tr') k2 = Some i \<longrightarrow> k2 = k1)"
    by blast
qed


lemma tracked_idD:
  "tracked_id tr sk = Some aid \<Longrightarrow> \<exists>k. sk = Some k \<and> k \<noteq> [] \<and> map_of (sessionToId tr) k = Some aid"
  by (auto simp: tracked_id_def split: option.splits if_splits)

text \<open>
  C2. In a state the translator reaches, a lifecycle \<open>start\<close> event whose session key is
  already tracked allocates nothing: the counter and the session-to-id map stay as they are
  and no \<open>agentCreated\<close> is emitted. The agent of that key exists; it becomes busy, its
  \<open>currentRunId\<close> becomes the run id of the event (\<open>null\<close> when the event has none), its tool
  history becomes empty, and the only message emitted is \<open>agentStatus\<close> with \<open>active\<close> for the
  existing id.
\<close>

theorem restart_reuses_id:
  "tr = run evs init_translator \<and> is_lifecycle ''start'' event payload \<and>
   payload_sessionKey payload = Some k \<and> tracked_id tr (Some k) = Some aid \<and>
   tr' = step (now, event, payload) tr \<longrightarrow>
   (\<exists>agent. map_of (agents tr) k = Some agent \<and> a_id agent = aid \<and>
      map_of (agents tr') k =
        Some (agent\<lparr>a_status := Busy, currentRunId := Option.bind payload pl_runId, toolHistory := []\<rparr>) \<and>
      tr' = tr\<lparr>agents := map_set k
               (agent\<lparr>a_status := Busy, currentRunId := Option.bind payload pl_runId,
                      toolHistory := []\<rparr>) (agents tr)\<rparr>) \<and>
   nextAgentId tr' = nextAgentId tr \<and> sessionToId tr' = sessionToId tr \<and>
   snd (handleGatewayEvent now event payload tr) = [AgentStatus aid Active]"
proof (intro impI, elim conjE)
  assume tr: "tr = run evs init_translator" and ev: "is_lifecycle ''start'' event payload"
    and key: "payload_sessionKey payload = Some k" and tracked: "tracked_id tr (Some k) = Some aid"
    and tr': "tr' = step (now, event, payload) tr"
  have inv: "tr_inv tr" unfolding tr by (rule run_inv[OF init_inv])
  from tracked have k: "k \<noteq> []" and sid: "map_of (sessionToId tr) k = Some aid"
    by (auto simp: tracked_id_def split: if_splits)
  from inv_agents_of_ids[OF inv, of k] sid obtain agent
    where ag: "map_of (agents tr) k = Some agent" and aid: "a_id agent = aid"
    by (cases "map_of (agents tr) k") auto
  let ?a = "agent\<lparr>a_status := Busy, currentRunId := Option.bind payload pl_runId, toolHistory := []\<rparr>"
  have h: "handleGatewayEvent now event payload tr =
      (tr\<lparr>agents := map_set k ?a (agents tr)\<rparr>, [AgentStatus aid Active])"
    using ev key k sid ag
    by (simp add: handleGatewayEvent_def is_lifecycle_def handleLifecycleEvent_def Let_def)
  have t: "tr' = tr\<lparr>agents := map_set k ?a (agents tr)\<rparr>"
    unfolding tr' by (simp add: step_def h)
  have m: "map_of (agents tr') k = Some ?a" by (simp add: t map_of_map_set)
  show "(\<exists>agent. map_of (agents tr) k = Some agent \<and> a_id agent = aid \<and>
      map_of (agents tr') k =
        Some (agent\<lparr>a_status := Busy, currentRunId := Option.bind payload pl_runId, toolHistory := []\<rparr>) \<and>
      tr' = tr\<lparr>agents := map_set k
               (agent\<lparr>a_status := Busy, currentRunId := Option.bind payload pl_runId,
                      toolHistory := []\<rparr>) (agents tr)\<rparr>) \<and>
   nextAgentId tr' = nextAgentId tr \<and> sessionToId tr' = sessionToId tr \<and>
   snd (handleGatewayEvent now event payload tr) = [AgentStatus aid Active]"
    using ag aid m t h by auto
qed

text \<open>
  C8. A lifecycle \<open>end\<close> or \<open>error\<close> event, a tool event or an approval request whose
  session key is missing, empty or not in the session-to-id map emits no message and leaves
  the whole translator state as it is (agents, session-to-id map and both counters). This
  holds in every state, reached or not.
\<close>

theorem unknown_session_dropped:
  "((is_lifecycle ''end'' event payload \<or> is_lifecycle ''error'' event payload \<or> is_tool event payload) \<and>
      tracked_id tr (payload_sessionKey payload) = None
    \<or> is_approval event \<and> tracked_id tr (Option.bind payload ev_sessionKey) = None)
   \<longrightarrow> handleGatewayEvent now event payload tr = (tr, [])"
proof -
  have le: "handleLifecycleEvent now payload tr = (tr, [])"
    if "lifecycle_phase payload = Some (JStr (lit ph))" "ph \<noteq> ''start''"
       "tracked_id tr (payload_sessionKey payload) = None" for ph
    using that
    by (auto simp: handleLifecycleEvent_def Let_def tracked_id_def split: option.splits if_splits)
  have tl: "handleToolEvent now payload tr = (tr, [])"
    if "tracked_id tr (payload_sessionKey payload) = None"
    using that
    by (auto simp: handleToolEvent_def Let_def tracked_id_def split: option.splits if_splits)
  have ap: "handleApprovalRequest payload tr = (tr, [])"
    if "tracked_id tr (Option.bind payload ev_sessionKey) = None"
    using that
    by (auto simp: handleApprovalRequest_def Let_def tracked_id_def split: option.splits if_splits)
  show ?thesis
    using le[of "''end''"] le[of "''error''"] tl ap
    by (auto simp: handleGatewayEvent_def is_lifecycle_def is_tool_def is_approval_def lit_def)
qed


lemma show_nat_nonempty: "show_nat n \<noteq> []"
  by (subst show_nat.simps) simp

lemma show_nat_inj: "show_nat n = show_nat m \<Longrightarrow> n = m"
proof (induction n arbitrary: m rule: show_nat.induct)
  case (1 n)
  show ?case
  proof (cases "n < 10")
    case True
    show ?thesis
    proof (cases "m < 10")
      case mt: True
      from "1.prems" True mt show ?thesis
        by (simp add: show_nat.simps[of n] show_nat.simps[of m])
    next
      case mf: False
      from "1.prems" True mf show ?thesis
        using show_nat_nonempty[of "m div 10"]
        by (simp add: show_nat.simps[of n] show_nat.simps[of m])
    qed
  next
    case False
    show ?thesis
    proof (cases "m < 10")
      case mt: True
      from "1.prems" False mt show ?thesis
        using show_nat_nonempty[of "n div 10"]
        by (simp add: show_nat.simps[of n] show_nat.simps[of m])
    next
      case mf: False
      from "1.prems" False mf
      have eq: "show_nat (n div 10) = show_nat (m div 10)" and md: "n mod 10 = m mod 10"
        by (simp_all add: show_nat.simps[of n] show_nat.simps[of m])
      from "1.IH"[OF False eq] have "n div 10 = m div 10" .
      with md show ?thesis by (metis div_mult_mod_eq)
    qed
  qed
qed

lemma generated_tool_id_inj: "generated_tool_id n = generated_tool_id m \<longleftrightarrow> n = m"
  using show_nat_inj by (auto simp: generated_tool_id_def)

lemma mark_done_no_match: "tid \<notin> t_toolId ` set ts \<Longrightarrow> mark_done tid now ts = ts"
  by (induction ts) auto

lemma mark_done_match:
  "tid \<in> t_toolId ` set ts \<Longrightarrow>
   \<exists>pre t post. ts = pre @ t # post \<and> tid \<notin> t_toolId ` set pre \<and> t_toolId t = tid \<and>
     mark_done tid now ts = pre @ t\<lparr>t_done := True, completedAt := Some now\<rparr> # post"
proof (induction ts)
  case Nil
  then show ?case by simp
next
  case (Cons a ts)
  show ?case
  proof (cases "t_toolId a = tid")
    case True
    have "a # ts = [] @ a # ts \<and> tid \<notin> t_toolId ` set [] \<and> t_toolId a = tid \<and>
      mark_done tid now (a # ts) = [] @ a\<lparr>t_done := True, completedAt := Some now\<rparr> # ts"
      using True by simp
    then show ?thesis by blast
  next
    case False
    with Cons.prems have "tid \<in> t_toolId ` set ts" by auto
    from Cons.IH[OF this] obtain pre t post where
      s: "ts = pre @ t # post" and n: "tid \<notin> t_toolId ` set pre" and e: "t_toolId t = tid"
      and m: "mark_done tid now ts = pre @ t\<lparr>t_done := True, completedAt := Some now\<rparr> # post"
      by blast
    have "a # ts = (a # pre) @ t # post \<and> tid \<notin> t_toolId ` set (a # pre) \<and> t_toolId t = tid \<and>
      mark_done tid now (a # ts) = (a # pre) @ t\<lparr>t_done := True, completedAt := Some now\<rparr> # post"
      using False s n e m by auto
    then show ?thesis by blast
  qed
qed

lemma tool_end_step:
  assumes ev: "is_tool_end event payload"
    and key: "payload_sessionKey payload = Some k"
    and tracked: "tracked_id tr (Some k) = Some aid"
  shows "handleGatewayEvent now event payload tr =
    ((case map_of (agents tr) k of
        None \<Rightarrow> tr\<lparr>toolIdCounter := (case tool_id_of payload of None \<Rightarrow> toolIdCounter tr + 1 | Some t \<Rightarrow> toolIdCounter tr)\<rparr>
      | Some a \<Rightarrow> tr\<lparr>toolIdCounter := (case tool_id_of payload of None \<Rightarrow> toolIdCounter tr + 1 | Some t \<Rightarrow> toolIdCounter tr),
             agents := map_set k (a\<lparr>toolHistory := mark_done (used_tool_id tr payload) now (toolHistory a)\<rparr>) (agents tr)\<rparr>),
     [AgentToolDone aid (used_tool_id tr payload)])"
proof -
  from tracked have k: "k \<noteq> []" and sid: "map_of (sessionToId tr) k = Some aid"
    by (auto simp: tracked_id_def split: if_splits)
  from ev have d: "handleGatewayEvent now event payload tr = handleToolEvent now payload tr"
    by (simp add: is_tool_end_def is_tool_def handleGatewayEvent_def lit_def)
  from ev have ph: "tool_phase payload = Some (JStr (lit ''end'')) \<or> tool_phase payload = Some (JStr (lit ''tool_end''))"
    by (simp add: is_tool_end_def)
  have ns: "tool_phase payload \<noteq> Some (JStr (lit ''start''))" "tool_phase payload \<noteq> Some (JStr (lit ''tool_start''))"
    using ph by (auto simp: lit_def)
  show ?thesis
    unfolding d using key k sid ph ns
    by (auto simp: handleToolEvent_def Let_def split: option.splits)
qed


lemma generated_only_fresh:
  assumes g: "generated_only tr"
  shows "generated_tool_id (toolIdCounter tr + 1) \<notin> set (history_ids tr k)"
proof (cases "map_of (agents tr) k")
  case None
  then show ?thesis by (simp add: history_ids_def)
next
  case (Some a)
  then have mem: "(k, a) \<in> set (agents tr)" by (rule map_of_SomeD)
  from g mem have all: "list_all (\<lambda>tool. t_toolId tool \<in>
        set (map generated_tool_id [1..<toolIdCounter tr + 1])) (toolHistory a)"
    by (auto simp: generated_only_def list_all_iff)
  show ?thesis
  proof
    assume "generated_tool_id (toolIdCounter tr + 1) \<in> set (history_ids tr k)"
    then obtain tool where t: "tool \<in> set (toolHistory a)"
      and e: "t_toolId tool = generated_tool_id (toolIdCounter tr + 1)"
      using Some by (auto simp: history_ids_def)
    from all t have "t_toolId tool \<in> set (map generated_tool_id [1..<toolIdCounter tr + 1])"
      by (simp add: list_all_iff)
    with e show False by (auto simp: generated_tool_id_inj)
  qed
qed

text \<open>
  C10, as the code has it. A tool event with phase \<open>end\<close> or \<open>tool_end\<close> whose session key is
  tracked emits exactly one \<open>agentToolDone\<close>, for the tool id of the event or, when it carries
  none, for the id generated from the incremented counter (the counter is left alone when the
  event carries an id). When no entry of the agent's tool history has that id, the agents are
  left as they are. When an entry has it, the first such entry is marked done, with the time
  of the event as its completion time, and nothing else changes. A generated id differs from
  every id generated before; so when every id in the histories was generated by the
  translator, an \<open>end\<close> event without tool id changes no history.
\<close>

theorem tool_end_always_reported:
  "is_tool_end event payload \<and> payload_sessionKey payload = Some k \<and>
   tracked_id tr (Some k) = Some aid \<and> tr' = step (now, event, payload) tr \<and>
   tid = used_tool_id tr payload \<longrightarrow>
     snd (handleGatewayEvent now event payload tr) = [AgentToolDone aid tid]
   \<and> (tid \<notin> set (history_ids tr k) \<longrightarrow> agents tr' = agents tr)
   \<and> (tid \<in> set (history_ids tr k) \<longrightarrow>
        (\<exists>agent pre t post.
           map_of (agents tr) k = Some agent \<and> toolHistory agent = pre @ t # post \<and>
           tid \<notin> set (map t_toolId pre) \<and> t_toolId t = tid \<and>
           agents tr' =
             map_set k (agent\<lparr>toolHistory := pre @ t\<lparr>t_done := True, completedAt := Some now\<rparr> # post\<rparr>)
               (agents tr)))
   \<and> (tool_id_of payload = Some given \<longrightarrow> tid = given \<and> toolIdCounter tr' = toolIdCounter tr)
   \<and> (tool_id_of payload = None \<longrightarrow>
        tid = generated_tool_id (toolIdCounter tr + 1) \<and> toolIdCounter tr' = toolIdCounter tr + 1 \<and>
        tid \<notin> set (map generated_tool_id [0..<toolIdCounter tr + 1]))
   \<and> (tool_id_of payload = None \<and> generated_only tr \<longrightarrow> agents tr' = agents tr)"
proof (intro impI, elim conjE)
  assume ev: "is_tool_end event payload" and key: "payload_sessionKey payload = Some k"
    and tracked: "tracked_id tr (Some k) = Some aid" and tr': "tr' = step (now, event, payload) tr"
    and tid: "tid = used_tool_id tr payload"
  note h = tool_end_step[OF ev key tracked, of now]
  have msgs: "snd (handleGatewayEvent now event payload tr) = [AgentToolDone aid tid]"
    by (simp add: h tid)
  have same: "agents tr' = agents tr" if nm: "tid \<notin> set (history_ids tr k)"
  proof (cases "map_of (agents tr) k")
    case None
    then show ?thesis by (simp add: tr' step_def h)
  next
    case (Some a)
    from nm Some have "tid \<notin> t_toolId ` set (toolHistory a)" by (simp add: history_ids_def)
    then have "mark_done tid now (toolHistory a) = toolHistory a" by (rule mark_done_no_match)
    then show ?thesis using Some by (simp add: tr' step_def h tid[symmetric] map_set_same)
  qed
  have marked: "\<exists>agent pre t post.
           map_of (agents tr) k = Some agent \<and> toolHistory agent = pre @ t # post \<and>
           tid \<notin> set (map t_toolId pre) \<and> t_toolId t = tid \<and>
           agents tr' =
             map_set k (agent\<lparr>toolHistory := pre @ t\<lparr>t_done := True, completedAt := Some now\<rparr> # post\<rparr>)
               (agents tr)" if mt: "tid \<in> set (history_ids tr k)"
  proof (cases "map_of (agents tr) k")
    case None
    with mt show ?thesis by (simp add: history_ids_def)
  next
    case (Some a)
    from mt Some have "tid \<in> t_toolId ` set (toolHistory a)" by (simp add: history_ids_def)
    from mark_done_match[OF this, of now] obtain pre t post where
      s: "toolHistory a = pre @ t # post" and n: "tid \<notin> t_toolId ` set pre" and e: "t_toolId t = tid"
      and m: "mark_done tid now (toolHistory a) = pre @ t\<lparr>t_done := True, completedAt := Some now\<rparr> # post"
      by blast
    have "agents tr' =
        map_set k (a\<lparr>toolHistory := pre @ t\<lparr>t_done := True, completedAt := Some now\<rparr> # post\<rparr>) (agents tr)"
      using Some m by (simp add: tr' step_def h tid[symmetric])
    with Some s n e show ?thesis by auto
  qed
  have own: "tid = given \<and> toolIdCounter tr' = toolIdCounter tr" if g: "tool_id_of payload = Some given"
    using g by (simp add: tid used_tool_id_def tr' step_def h split: option.splits)
  have gen: "tid = generated_tool_id (toolIdCounter tr + 1) \<and> toolIdCounter tr' = toolIdCounter tr + 1 \<and>
        tid \<notin> set (map generated_tool_id [0..<toolIdCounter tr + 1])" if n: "tool_id_of payload = None"
  proof -
    have a: "tid = generated_tool_id (toolIdCounter tr + 1)" using n by (simp add: tid used_tool_id_def)
    have b: "toolIdCounter tr' = toolIdCounter tr + 1"
      using n by (simp add: tr' step_def h split: option.splits)
    have c: "tid \<notin> set (map generated_tool_id [0..<toolIdCounter tr + 1])"
      unfolding a by (auto simp: generated_tool_id_inj)
    from a b c show ?thesis by blast
  qed
  have gonly: "agents tr' = agents tr" if n: "tool_id_of payload = None" and g: "generated_only tr"
  proof -
    have "tid = generated_tool_id (toolIdCounter tr + 1)" using n by (simp add: tid used_tool_id_def)
    with generated_only_fresh[OF g, of k] show ?thesis using same by simp
  qed
  from msgs same marked own gen gonly
  show "snd (handleGatewayEvent now event payload tr) = [AgentToolDone aid tid]
   \<and> (tid \<notin> set (history_ids tr k) \<longrightarrow> agents tr' = agents tr)
   \<and> (tid \<in> set (history_ids tr k) \<longrightarrow>
        (\<exists>agent pre t post.
           map_of (agents tr) k = Some agent \<and> toolHistory agent = pre @ t # post \<and>
           tid \<notin> set (map t_toolId pre) \<and> t_toolId t = tid \<and>
           agents tr' =
             map_set k (agent\<lparr>toolHistory := pre @ t\<lparr>t_done := True, completedAt := Some now\<rparr> # post\<rparr>)
               (agents tr)))
   \<and> (tool_id_of payload = Some given \<longrightarrow> tid = given \<and> toolIdCounter tr' = toolIdCounter tr)
   \<and> (tool_id_of payload = None \<longrightarrow>
        tid = generated_tool_id (toolIdCounter tr + 1) \<and> toolIdCounter tr' = toolIdCounter tr + 1 \<and>
        tid \<notin> set (map generated_tool_id [0..<toolIdCounter tr + 1]))
   \<and> (tool_id_of payload = None \<and> generated_only tr \<longrightarrow> agents tr' = agents tr)"
    by blast
qed


theorem session_ids_assigned_once_witness:
  "map_of (sessionToId (run [(1, agent_stream, lifecycle_payload ''a'' ''start'' None),
        (2, agent_stream, lifecycle_payload ''b'' ''start'' None)] init_translator)) (lit ''b'') = Some 2
   \<and> is_lifecycle ''start'' agent_stream (lifecycle_payload ''c'' ''start'' None)
   \<and> payload_sessionKey (lifecycle_payload ''c'' ''start'' None) = Some (lit ''c'') \<and> lit ''c'' \<noteq> []
   \<and> map_of (sessionToId (run [(1, agent_stream, lifecycle_payload ''a'' ''start'' None),
        (2, agent_stream, lifecycle_payload ''b'' ''start'' None)] init_translator)) (lit ''c'') = None
   \<and> sessionToId (step (3, agent_stream, lifecycle_payload ''c'' ''start'' None)
        (run [(1, agent_stream, lifecycle_payload ''a'' ''start'' None),
              (2, agent_stream, lifecycle_payload ''b'' ''start'' None)] init_translator))
      = [(lit ''a'', 1), (lit ''b'', 2), (lit ''c'', 3)]
   \<and> map_of (sessionToId (run [(3, agent_stream, lifecycle_payload ''b'' ''error'' None),
        (4, agent_stream, lifecycle_payload ''c'' ''start'' None),
        (5, agent_stream, lifecycle_payload ''b'' ''start'' None)]
        (run [(1, agent_stream, lifecycle_payload ''a'' ''start'' None),
              (2, agent_stream, lifecycle_payload ''b'' ''start'' None)] init_translator))) (lit ''b'') = Some 2"
proof -
  let ?evs = "[(1, agent_stream, lifecycle_payload ''a'' ''start'' None),
        (2, agent_stream, lifecycle_payload ''b'' ''start'' None)]"
  let ?evs' = "[(3, agent_stream, lifecycle_payload ''b'' ''error'' None),
        (4, agent_stream, lifecycle_payload ''c'' ''start'' None),
        (5, agent_stream, lifecycle_payload ''b'' ''start'' None)]"
  have h1: "map_of (sessionToId (run ?evs init_translator)) (lit ''b'') = Some 2" by code_simp
  have h2: "is_lifecycle ''start'' agent_stream (lifecycle_payload ''c'' ''start'' None)" by code_simp
  have h3: "payload_sessionKey (lifecycle_payload ''c'' ''start'' None) = Some (lit ''c'')" by code_simp
  have h4: "lit ''c'' \<noteq> []" by code_simp
  have h5: "map_of (sessionToId (run ?evs init_translator)) (lit ''c'') = None" by code_simp
  have v: "sessionToId (run ?evs init_translator) @ [(lit ''c'', length (sessionToId (run ?evs init_translator)) + 1)]
     = [(lit ''a'', 1), (lit ''b'', 2), (lit ''c'', 3)]" by code_simp
  from session_ids_assigned_once
    [of "run ?evs init_translator" ?evs "run ?evs' (run ?evs init_translator)" ?evs'
        "lit ''b''" 2 "lit ''b''" agent_stream "lifecycle_payload ''c'' ''start'' None" "lit ''c''" 3]
    h1 h2 h3 h4 h5 v
  show ?thesis by simp
qed


theorem restart_reuses_id_witness:
  "is_lifecycle ''start'' agent_stream (lifecycle_payload ''x'' ''start'' (Some (lit ''run-2'')))
   \<and> payload_sessionKey (lifecycle_payload ''x'' ''start'' (Some (lit ''run-2''))) = Some (lit ''x'')
   \<and> tracked_id (run [(1, agent_stream, lifecycle_payload ''x'' ''start'' (Some (lit ''run-1''))),
         (2, agent_stream, tool_payload ''x'' (tool_start_data ''Bash'' empty_input (Some (lit ''t1''))))]
         init_translator) (Some (lit ''x'')) = Some 1
   \<and> snd (handleGatewayEvent 3 agent_stream (lifecycle_payload ''x'' ''start'' (Some (lit ''run-2'')))
        (run [(1, agent_stream, lifecycle_payload ''x'' ''start'' (Some (lit ''run-1''))),
         (2, agent_stream, tool_payload ''x'' (tool_start_data ''Bash'' empty_input (Some (lit ''t1''))))]
         init_translator)) = [AgentStatus 1 Active]
   \<and> nextAgentId (step (3, agent_stream, lifecycle_payload ''x'' ''start'' (Some (lit ''run-2'')))
        (run [(1, agent_stream, lifecycle_payload ''x'' ''start'' (Some (lit ''run-1''))),
         (2, agent_stream, tool_payload ''x'' (tool_start_data ''Bash'' empty_input (Some (lit ''t1''))))]
         init_translator)) = 2"
proof -
  let ?evs = "[(1, agent_stream, lifecycle_payload ''x'' ''start'' (Some (lit ''run-1''))),
         (2, agent_stream, tool_payload ''x'' (tool_start_data ''Bash'' empty_input (Some (lit ''t1''))))]"
  let ?p = "lifecycle_payload ''x'' ''start'' (Some (lit ''run-2''))"
  have h1: "is_lifecycle ''start'' agent_stream ?p" by code_simp
  have h2: "payload_sessionKey ?p = Some (lit ''x'')" by code_simp
  have h3: "tracked_id (run ?evs init_translator) (Some (lit ''x'')) = Some 1" by code_simp
  have v: "nextAgentId (run ?evs init_translator) = 2" by code_simp
  from restart_reuses_id
    [of "run ?evs init_translator" ?evs agent_stream ?p "lit ''x''" 1
        "step (3, agent_stream, ?p) (run ?evs init_translator)" 3]
    h1 h2 h3 v
  show ?thesis by simp
qed

theorem unknown_session_dropped_witness:
  "is_tool agent_stream (tool_payload ''ghost'' (tool_end_data (Some (lit ''t9''))))
   \<and> tracked_id (run [(1, agent_stream, lifecycle_payload ''x'' ''start'' None)] init_translator)
        (payload_sessionKey (tool_payload ''ghost'' (tool_end_data (Some (lit ''t9''))))) = None
   \<and> handleGatewayEvent 2 agent_stream (tool_payload ''ghost'' (tool_end_data (Some (lit ''t9''))))
        (run [(1, agent_stream, lifecycle_payload ''x'' ''start'' None)] init_translator)
      = (run [(1, agent_stream, lifecycle_payload ''x'' ''start'' None)] init_translator, [])
   \<and> is_lifecycle ''end'' agent_stream (lifecycle_payload ''ghost'' ''end'' None)
   \<and> handleGatewayEvent 2 agent_stream (lifecycle_payload ''ghost'' ''end'' None)
        (run [(1, agent_stream, lifecycle_payload ''x'' ''start'' None)] init_translator)
      = (run [(1, agent_stream, lifecycle_payload ''x'' ''start'' None)] init_translator, [])
   \<and> is_approval (lit ''exec.approval.requested'')
   \<and> tracked_id (run [(1, agent_stream, lifecycle_payload ''x'' ''start'' None)] init_translator)
        (Option.bind (Some (no_payload\<lparr>ev_sessionKey := Some (lit ''ghost'')\<rparr>)) ev_sessionKey) = None
   \<and> handleGatewayEvent 2 (lit ''exec.approval.requested'')
        (Some (no_payload\<lparr>ev_sessionKey := Some (lit ''ghost'')\<rparr>))
        (run [(1, agent_stream, lifecycle_payload ''x'' ''start'' None)] init_translator)
      = (run [(1, agent_stream, lifecycle_payload ''x'' ''start'' None)] init_translator, [])"
proof -
  let ?tr = "run [(1, agent_stream, lifecycle_payload ''x'' ''start'' None)] init_translator"
  let ?t = "tool_payload ''ghost'' (tool_end_data (Some (lit ''t9'')))"
  let ?l = "lifecycle_payload ''ghost'' ''end'' None"
  let ?a = "Some (no_payload\<lparr>ev_sessionKey := Some (lit ''ghost'')\<rparr>)"
  have h1: "is_tool agent_stream ?t" by code_simp
  have h2: "tracked_id ?tr (payload_sessionKey ?t) = None" by code_simp
  have h3: "is_lifecycle ''end'' agent_stream ?l" by code_simp
  have h4: "tracked_id ?tr (payload_sessionKey ?l) = None" by code_simp
  have h5: "is_approval (lit ''exec.approval.requested'')" by code_simp
  have h6: "tracked_id ?tr (Option.bind ?a ev_sessionKey) = None" by code_simp
  from unknown_session_dropped[of agent_stream ?t ?tr 2]
       unknown_session_dropped[of agent_stream ?l ?tr 2]
       unknown_session_dropped[of "lit ''exec.approval.requested''" ?a ?tr 2]
       h1 h2 h3 h4 h5 h6
  show ?thesis by simp
qed

theorem tool_end_always_reported_witness:
  "is_tool_end agent_stream (tool_payload ''x'' (tool_end_data None))
   \<and> payload_sessionKey (tool_payload ''x'' (tool_end_data None)) = Some (lit ''x'')
   \<and> tracked_id (run [(1, agent_stream, lifecycle_payload ''x'' ''start'' None),
         (2, agent_stream, tool_payload ''x'' (tool_start_data ''Bash'' empty_input None))]
         init_translator) (Some (lit ''x'')) = Some 1
   \<and> tool_id_of (tool_payload ''x'' (tool_end_data None)) = None
   \<and> generated_only (run [(1, agent_stream, lifecycle_payload ''x'' ''start'' None),
         (2, agent_stream, tool_payload ''x'' (tool_start_data ''Bash'' empty_input None))]
         init_translator)
   \<and> lit ''tool-2'' \<notin> set (history_ids (run [(1, agent_stream, lifecycle_payload ''x'' ''start'' None),
         (2, agent_stream, tool_payload ''x'' (tool_start_data ''Bash'' empty_input None))]
         init_translator) (lit ''x''))
   \<and> snd (handleGatewayEvent 3 agent_stream (tool_payload ''x'' (tool_end_data None))
        (run [(1, agent_stream, lifecycle_payload ''x'' ''start'' None),
         (2, agent_stream, tool_payload ''x'' (tool_start_data ''Bash'' empty_input None))]
         init_translator)) = [AgentToolDone 1 (lit ''tool-2'')]
   \<and> agents (step (3, agent_stream, tool_payload ''x'' (tool_end_data None))
        (run [(1, agent_stream, lifecycle_payload ''x'' ''start'' None),
         (2, agent_stream, tool_payload ''x'' (tool_start_data ''Bash'' empty_input None))]
         init_translator))
      = agents (run [(1, agent_stream, lifecycle_payload ''x'' ''start'' None),
         (2, agent_stream, tool_payload ''x'' (tool_start_data ''Bash'' empty_input None))]
         init_translator)
   \<and> is_tool_end agent_stream (tool_payload ''x'' (tool_end_data (Some (lit ''t9''))))
   \<and> tool_id_of (tool_payload ''x'' (tool_end_data (Some (lit ''t9'')))) = Some (lit ''t9'')
   \<and> tracked_id (run [(1, agent_stream, lifecycle_payload ''x'' ''start'' None),
         (2, agent_stream, tool_payload ''x'' (tool_start_data ''Bash'' empty_input (Some (lit ''t9''))))]
         init_translator) (Some (lit ''x'')) = Some 1
   \<and> lit ''t9'' \<in> set (history_ids (run [(1, agent_stream, lifecycle_payload ''x'' ''start'' None),
         (2, agent_stream, tool_payload ''x'' (tool_start_data ''Bash'' empty_input (Some (lit ''t9''))))]
         init_translator) (lit ''x''))
   \<and> agents (step (3, agent_stream, tool_payload ''x'' (tool_end_data (Some (lit ''t9''))))
        (run [(1, agent_stream, lifecycle_payload ''x'' ''start'' None),
         (2, agent_stream, tool_payload ''x'' (tool_start_data ''Bash'' empty_input (Some (lit ''t9''))))]
         init_translator))
      = [(lit ''x'', \<lparr>a_id = 1, a_sessionKey = lit ''x'', a_name = lit ''Agent #1'',
          a_status = Busy, currentTask = Some (lit ''Running: ''), currentRunId = None,
          toolHistory = [\<lparr>t_toolId = lit ''t9'', t_name = lit ''Bash'', t_status = lit ''Running: '',
            startedAt = 2, completedAt = Some 3, t_done = True, permissionWait = False\<rparr>],
          createdAt = 1\<rparr>)]"
proof -
  let ?tr = "run [(1, agent_stream, lifecycle_payload ''x'' ''start'' None),
         (2, agent_stream, tool_payload ''x'' (tool_start_data ''Bash'' empty_input None))]
         init_translator"
  let ?p = "tool_payload ''x'' (tool_end_data None)"
  let ?p2 = "tool_payload ''x'' (tool_end_data (Some (lit ''t9'')))"
  define tr2 where "tr2 = run [(1, agent_stream, lifecycle_payload ''x'' ''start'' None),
         (2, agent_stream, tool_payload ''x'' (tool_start_data ''Bash'' empty_input (Some (lit ''t9''))))]
         init_translator"
  define tr3 where "tr3 = step (3, agent_stream, ?p2) tr2"
  have h1: "is_tool_end agent_stream ?p" by code_simp
  have h2: "payload_sessionKey ?p = Some (lit ''x'')" by code_simp
  have h3: "tracked_id ?tr (Some (lit ''x'')) = Some 1" by code_simp
  have h4: "tool_id_of ?p = None" by code_simp
  have h5: "generated_only ?tr" by code_simp
  have v: "used_tool_id ?tr ?p = lit ''tool-2''" by code_simp
  have h6: "lit ''tool-2'' \<notin> set (history_ids ?tr (lit ''x''))" by code_simp
  have g1: "is_tool_end agent_stream ?p2" by code_simp
  have g2: "payload_sessionKey ?p2 = Some (lit ''x'')" by code_simp
  have g5: "tool_id_of ?p2 = Some (lit ''t9'')" by code_simp
  have g3: "tracked_id tr2 (Some (lit ''x'')) = Some 1" unfolding tr2_def by code_simp
  have w: "lit ''t9'' = used_tool_id tr2 ?p2" unfolding tr2_def by code_simp
  have g4: "lit ''t9'' \<in> set (history_ids tr2 (lit ''x''))" unfolding tr2_def by code_simp
  have a2: "agents tr2 = [(lit ''x'', \<lparr>a_id = 1, a_sessionKey = lit ''x'', a_name = lit ''Agent #1'',
      a_status = Busy, currentTask = Some (lit ''Running: ''), currentRunId = None,
      toolHistory = [\<lparr>t_toolId = lit ''t9'', t_name = lit ''Bash'', t_status = lit ''Running: '',
        startedAt = 2, completedAt = None, t_done = False, permissionWait = False\<rparr>],
      createdAt = 1\<rparr>)]" unfolding tr2_def by code_simp
  from tool_end_always_reported
    [of agent_stream ?p2 "lit ''x''" tr2 1 tr3 3 "lit ''t9''", where given = "lit ''t9''"]
    g1 g2 g3 g4 g5 w
  obtain agent pre t post where
    ag: "map_of (agents tr2) (lit ''x'') = Some agent" and hs: "toolHistory agent = pre @ t # post"
    and a3: "agents tr3 =
      map_set (lit ''x'') (agent\<lparr>toolHistory := pre @ t\<lparr>t_done := True, completedAt := Some 3\<rparr> # post\<rparr>)
        (agents tr2)"
    unfolding tr3_def by blast
  from ag hs have pre: "pre = []" and post: "post = []"
    by (auto simp: a2 Cons_eq_append_conv)
  from ag hs pre post have m: "agents tr3 = [(lit ''x'', \<lparr>a_id = 1, a_sessionKey = lit ''x'', a_name = lit ''Agent #1'',
          a_status = Busy, currentTask = Some (lit ''Running: ''), currentRunId = None,
          toolHistory = [\<lparr>t_toolId = lit ''t9'', t_name = lit ''Bash'', t_status = lit ''Running: '',
            startedAt = 2, completedAt = Some 3, t_done = True, permissionWait = False\<rparr>],
          createdAt = 1\<rparr>)]"
    unfolding a3 by (auto simp: a2)
  note g3' = g3[unfolded tr2_def] and g4' = g4[unfolded tr2_def] and m' = m[unfolded tr3_def tr2_def]
  from tool_end_always_reported
    [of agent_stream ?p "lit ''x''" ?tr 1 "step (3, agent_stream, ?p) ?tr" 3 "used_tool_id ?tr ?p",
     where given = "[]"]
    h1 h2 h3 h4 h5 h6 v g1 g5 g3' g4' m'
  show ?thesis by simp
qed

text \<open>
  The claim C10 says that an id generated for an \<open>end\<close> event without tool id can never match
  a started tool. It can: the gateway (the simulator of the repository does so) names its tools
  \<open>tool-1\<close>, \<open>tool-2\<close>, ... too. After a tool started under the gateway's id \<open>tool-1\<close>, the
  first \<open>end\<close> event without a tool id is handled under the generated id \<open>tool-1\<close> and marks
  that tool done.
\<close>

theorem generated_id_matches_gateway_tool:
  "tool_id_of (tool_payload ''x'' (tool_end_data None)) = None
   \<and> history_ids (run [(5, agent_stream, lifecycle_payload ''x'' ''start'' None),
        (6, agent_stream, tool_payload ''x'' (tool_start_data ''Bash'' empty_input (Some (lit ''tool-1''))))]
        init_translator) (lit ''x'') = [lit ''tool-1'']
   \<and> history_done (run [(5, agent_stream, lifecycle_payload ''x'' ''start'' None),
        (6, agent_stream, tool_payload ''x'' (tool_start_data ''Bash'' empty_input (Some (lit ''tool-1''))))]
        init_translator) (lit ''x'') = [False]
   \<and> history_done (run [(5, agent_stream, lifecycle_payload ''x'' ''start'' None),
        (6, agent_stream, tool_payload ''x'' (tool_start_data ''Bash'' empty_input (Some (lit ''tool-1'')))),
        (7, agent_stream, tool_payload ''x'' (tool_end_data None))]
        init_translator) (lit ''x'') = [True]
   \<and> run_messages [(7, agent_stream, tool_payload ''x'' (tool_end_data None))]
        (run [(5, agent_stream, lifecycle_payload ''x'' ''start'' None),
        (6, agent_stream, tool_payload ''x'' (tool_start_data ''Bash'' empty_input (Some (lit ''tool-1''))))]
        init_translator) = [AgentToolDone 1 (lit ''tool-1'')]"
  by code_simp


section \<open>Properties of the initial state sent to an observer\<close>

lemma replay_tools_open:
  "replay_tools (Suc 0) aid tools sent =
     sent @ map (\<lambda>tool. AgentToolStart aid (t_toolId tool) (t_status tool))
              (filter (\<lambda>tool. \<not> t_done tool) tools)"
  by (induction tools arbitrary: sent) (simp_all add: sendTo_def)

lemma replay_agents_open: "replay_agents (Suc 0) as sent = sent @ concat (map agent_replay as)"
  by (induction as arbitrary: sent)
     (simp_all add: sendTo_def replay_tools_open agent_replay_def open_tools_def)

lemma replay_tools_closed: "rs \<noteq> Suc 0 \<Longrightarrow> replay_tools rs aid tools sent = sent"
  by (induction tools arbitrary: sent) (simp_all add: sendTo_def)

lemma replay_agents_closed: "rs \<noteq> Suc 0 \<Longrightarrow> replay_agents rs as sent = sent"
  by (induction as arbitrary: sent) (simp_all add: sendTo_def replay_tools_closed)

lemma agent_replay_no_done: "\<not> list_ex is_tool_done (agent_replay a)"
  by (auto simp: agent_replay_def is_tool_done_def list_ex_iff)

lemma asset_messages_no_done: "\<not> list_ex is_tool_done (asset_messages files)"
  by (auto simp: asset_messages_def is_tool_done_def list_ex_iff split: option.splits)

lemma snapshot_open:
  "sendInitialState (Suc 0) files gw tr [] =
     asset_messages files @
     [SettingsLoaded True, ExistingAgents (map a_id (getTrackedAgents tr)), LayoutLoaded (layout_of files)] @
     concat (map agent_replay (getTrackedAgents tr)) @ [ConnectionStatus gw None]"
  by (simp add: sendInitialState_def Let_def replay_agents_open sendTo_def asset_messages_def layout_of_def
      split: option.splits prod.splits)

lemma snapshot_closed: "rs \<noteq> Suc 0 \<Longrightarrow> sendInitialState rs files gw tr [] = []"
  by (simp add: sendInitialState_def Let_def replay_agents_closed sendTo_def
      split: option.splits prod.splits)

lemma agent_replay_kept: "filter (\<lambda>m. \<not> is_settings_or_layout m) (agent_replay a) = agent_replay a"
  by (simp add: agent_replay_def is_settings_or_layout_def)

lemma asset_messages_kept:
  "filter (\<lambda>m. \<not> is_settings_or_layout m) (asset_messages files) = asset_messages files"
  by (simp add: asset_messages_def is_settings_or_layout_def split: option.splits prod.splits)

text \<open>
  C6. For every translator state, \<open>sendInitialState\<close> writes to the open socket of the
  observer, in this order: the asset messages (each only if its loader returned data), the
  \<open>existingAgents\<close> roster with the id of every tracked agent, then for each tracked agent in
  turn its replay (for a busy agent \<open>agentStatus\<close> with \<open>active\<close> followed by one
  \<open>agentToolStart\<close> per tool of its history that is not done; for an agent in error
  \<open>agentStatus\<close> with \<open>error\<close>; nothing for the others), and last one \<open>connectionStatus\<close>
  with the gateway state. No \<open>agentToolDone\<close> is part of it. These are all the messages of
  the snapshot but two, of which the claim does not speak: \<open>settingsLoaded\<close>, sent just
  before the roster, and \<open>layoutLoaded\<close>, sent just after it. The first conjunct is the whole
  snapshot, the second the snapshot without those two.
\<close>

theorem snapshot_order:
  "sendInitialState 1 files gw tr [] =
     asset_messages files @
     [SettingsLoaded True, ExistingAgents (map a_id (getTrackedAgents tr)),
      LayoutLoaded (layout_of files)] @
     concat (map agent_replay (getTrackedAgents tr)) @ [ConnectionStatus gw None]
   \<and> filter (\<lambda>m. \<not> is_settings_or_layout m) (sendInitialState 1 files gw tr []) =
     asset_messages files @ [ExistingAgents (map a_id (getTrackedAgents tr))] @
     concat (map agent_replay (getTrackedAgents tr)) @ [ConnectionStatus gw None]
   \<and> \<not> list_ex is_tool_done (sendInitialState 1 files gw tr [])"
proof -
  have nd: "\<not> list_ex is_tool_done (concat (map agent_replay as))" for as
    using agent_replay_no_done by (induction as) (auto simp: list_ex_iff)
  have kept: "filter (\<lambda>m. \<not> is_settings_or_layout m) (concat (map agent_replay as))
      = concat (map agent_replay as)" for as
    by (induction as) (simp_all add: agent_replay_kept)
  have a: "sendInitialState 1 files gw tr [] =
     asset_messages files @
     [SettingsLoaded True, ExistingAgents (map a_id (getTrackedAgents tr)),
      LayoutLoaded (layout_of files)] @
     concat (map agent_replay (getTrackedAgents tr)) @ [ConnectionStatus gw None]"
    by (simp add: snapshot_open)
  have b: "filter (\<lambda>m. \<not> is_settings_or_layout m) (sendInitialState 1 files gw tr []) =
     asset_messages files @ [ExistingAgents (map a_id (getTrackedAgents tr))] @
     concat (map agent_replay (getTrackedAgents tr)) @ [ConnectionStatus gw None]"
    unfolding a by (simp add: kept asset_messages_kept) (simp add: is_settings_or_layout_def)
  have c: "\<not> list_ex is_tool_done (sendInitialState 1 files gw tr [])"
    unfolding a using nd[of "getTrackedAgents tr"] asset_messages_no_done[of files]
    by (auto simp: is_tool_done_def list_ex_iff)
  from a b c show ?thesis by blast
qed

theorem snapshot_order_witness:
  "sendInitialState 1 nothing_loaded Handshaking
     (run [(1, agent_stream, lifecycle_payload ''x'' ''start'' None),
           (2, agent_stream, tool_payload ''x'' (tool_start_data ''Bash'' empty_input (Some (lit ''t1'')))),
           (3, agent_stream, lifecycle_payload ''y'' ''start'' None),
           (4, agent_stream, lifecycle_payload ''y'' ''error'' None),
           (5, agent_stream, lifecycle_payload ''z'' ''start'' None),
           (6, agent_stream, lifecycle_payload ''z'' ''end'' None)] init_translator) []
   = [SettingsLoaded True, ExistingAgents [1, 2, 3], LayoutLoaded JNull,
      AgentStatus 1 Active, AgentToolStart 1 (lit ''t1'') (lit ''Running: ''),
      AgentStatus 2 StatusError, ConnectionStatus Handshaking None]
   \<and> filter (\<lambda>m. \<not> is_settings_or_layout m)
       (sendInitialState 1 nothing_loaded Handshaking
         (run [(1, agent_stream, lifecycle_payload ''x'' ''start'' None),
           (2, agent_stream, tool_payload ''x'' (tool_start_data ''Bash'' empty_input (Some (lit ''t1'')))),
           (3, agent_stream, lifecycle_payload ''y'' ''start'' None),
           (4, agent_stream, lifecycle_payload ''y'' ''error'' None),
           (5, agent_stream, lifecycle_payload ''z'' ''start'' None),
           (6, agent_stream, lifecycle_payload ''z'' ''end'' None)] init_translator) [])
   = [ExistingAgents [1, 2, 3],
      AgentStatus 1 Active, AgentToolStart 1 (lit ''t1'') (lit ''Running: ''),
      AgentStatus 2 StatusError, ConnectionStatus Handshaking None]"
proof -
  define tr where "tr = run [(1, agent_stream, lifecycle_payload ''x'' ''start'' None),
           (2, agent_stream, tool_payload ''x'' (tool_start_data ''Bash'' empty_input (Some (lit ''t1'')))),
           (3, agent_stream, lifecycle_payload ''y'' ''start'' None),
           (4, agent_stream, lifecycle_payload ''y'' ''error'' None),
           (5, agent_stream, lifecycle_payload ''z'' ''start'' None),
           (6, agent_stream, lifecycle_payload ''z'' ''end'' None)] init_translator"
  have v: "asset_messages nothing_loaded @
        [SettingsLoaded True, ExistingAgents (map a_id (getTrackedAgents tr)),
         LayoutLoaded (layout_of nothing_loaded)] @
        concat (map agent_replay (getTrackedAgents tr)) @ [ConnectionStatus Handshaking None]
     = [SettingsLoaded True, ExistingAgents [1, 2, 3], LayoutLoaded JNull,
      AgentStatus 1 Active, AgentToolStart 1 (lit ''t1'') (lit ''Running: ''),
      AgentStatus 2 StatusError, ConnectionStatus Handshaking None]"
    unfolding tr_def by code_simp
  have w: "asset_messages nothing_loaded @ [ExistingAgents (map a_id (getTrackedAgents tr))] @
        concat (map agent_replay (getTrackedAgents tr)) @ [ConnectionStatus Handshaking None]
     = [ExistingAgents [1, 2, 3],
      AgentStatus 1 Active, AgentToolStart 1 (lit ''t1'') (lit ''Running: ''),
      AgentStatus 2 StatusError, ConnectionStatus Handshaking None]"
    unfolding tr_def by code_simp
  from snapshot_order[of nothing_loaded Handshaking tr, unfolded v w]
  show ?thesis unfolding tr_def[symmetric] by blast
qed

section \<open>Properties of the observer-side send buffer\<close>

lemma post_closed:
  "\<not> ws_is_open c \<Longrightarrow> postMessage m c =
     c\<lparr>sendBuffer := (if length (sendBuffer c @ [m]) > maxBufferSize c then tl (sendBuffer c @ [m]) else sendBuffer c @ [m])\<rparr>"
  by (simp add: postMessage_def Let_def)

lemma drop_overflow:
  "length buf = n \<Longrightarrow>
   drop (length (tl (buf @ [m]) @ msgs) - n) (tl (buf @ [m]) @ msgs) =
   drop (length (buf @ m # msgs) - n) (buf @ m # msgs)"
  by (cases buf) auto

lemma post_all_closed:
  "\<not> ws_is_open c \<Longrightarrow> length (sendBuffer c) \<le> maxBufferSize c \<Longrightarrow>
   post_all msgs c = c\<lparr>sendBuffer := drop (length (sendBuffer c @ msgs) - maxBufferSize c) (sendBuffer c @ msgs)\<rparr>"
proof (induction msgs arbitrary: c)
  case Nil
  then show ?case by simp
next
  case (Cons m msgs)
  let ?c1 = "postMessage m c"
  have c1: "?c1 = c\<lparr>sendBuffer := (if length (sendBuffer c @ [m]) > maxBufferSize c then tl (sendBuffer c @ [m]) else sendBuffer c @ [m])\<rparr>"
    using Cons.prems(1) by (rule post_closed)
  have o1: "\<not> ws_is_open ?c1" using Cons.prems(1) by (auto simp: c1 ws_is_open_def split: option.splits)
  have l1: "length (sendBuffer ?c1) \<le> maxBufferSize ?c1" using Cons.prems(2) by (simp add: c1)
  have "post_all (m # msgs) c = post_all msgs ?c1" by simp
  also have "\<dots> = ?c1\<lparr>sendBuffer := drop (length (sendBuffer ?c1 @ msgs) - maxBufferSize ?c1) (sendBuffer ?c1 @ msgs)\<rparr>"
    by (rule Cons.IH[OF o1 l1])
  also have "\<dots> = c\<lparr>sendBuffer := drop (length (sendBuffer c @ m # msgs) - maxBufferSize c) (sendBuffer c @ m # msgs)\<rparr>"
  proof (cases "length (sendBuffer c @ [m]) > maxBufferSize c")
    case True
    with Cons.prems(2) have e: "length (sendBuffer c) = maxBufferSize c" by simp
    have c1': "?c1 = c\<lparr>sendBuffer := tl (sendBuffer c @ [m])\<rparr>" using True by (simp only: c1 if_True)
    show ?thesis unfolding c1' using drop_overflow[OF e, of m msgs] by simp
  next
    case False
    then show ?thesis by (simp add: c1)
  qed
  finally show ?case .
qed

lemma flush_open:
  "wc_ws c = Some h \<Longrightarrow> map_of (wc_sockets c) h = Some OPEN \<Longrightarrow>
   flush msgs c = Inr (c\<lparr>wire := wire c @ map (Pair h) msgs\<rparr>)"
  by (induction msgs arbitrary: c) (simp_all add: browser_send_def)


lemma socket_opens_current:
  assumes ws: "wc_ws d = Some h" and st: "map_of (wc_sockets d) h = Some CONNECTING"
  shows "socket_opens h d =
     Inr (d\<lparr>wc_sockets := map_set h OPEN (wc_sockets d), wc_state := WsConnected,
            wc_reconnectDelay := 1000,
            wire := wire d @ map (Pair h) (sendBuffer d) @ [(h, webviewReady)],
            sendBuffer := []\<rparr>)"
proof -
  let ?d1 = "d\<lparr>wc_sockets := map_set h OPEN (wc_sockets d), wc_state := WsConnected, wc_reconnectDelay := 1000\<rparr>"
  have op: "map_of (wc_sockets ?d1) h = Some OPEN" by (simp add: map_of_map_set)
  have w1: "wc_ws ?d1 = Some h" using ws by simp
  have fl: "flush (sendBuffer d) ?d1 = Inr (?d1\<lparr>wire := wire ?d1 @ map (Pair h) (sendBuffer d)\<rparr>)"
    by (rule flush_open[OF w1 op])
  have "socket_opens h d = onopen (d\<lparr>wc_sockets := map_set h OPEN (wc_sockets d)\<rparr>)"
    using st by (simp add: socket_opens_def)
  also have "\<dots> = Inr (postMessage webviewReady
       (?d1\<lparr>wire := wire ?d1 @ map (Pair h) (sendBuffer d), sendBuffer := []\<rparr>))"
    using fl by (simp add: onopen_def Let_def)
  also have "\<dots> = Inr (d\<lparr>wc_sockets := map_set h OPEN (wc_sockets d), wc_state := WsConnected,
            wc_reconnectDelay := 1000,
            wire := wire d @ map (Pair h) (sendBuffer d) @ [(h, webviewReady)],
            sendBuffer := []\<rparr>)"
    using ws by (simp add: postMessage_def ws_is_open_def map_of_map_set)
  finally show ?thesis .
qed

text \<open>
  C9. While the client's socket is not open, every \<open>postMessage\<close> appends to the send
  buffer and, when the buffer then exceeds its capacity, drops the oldest entry: after any
  sequence of such calls the buffer holds the last \<open>maxBufferSize\<close> of the messages buffered
  and posted, in order, and nothing was written to a socket. The capacity never changes; the
  client is created with capacity 100 and an empty buffer. When the client's current socket
  then opens, the buffered messages are written to it in their order, followed by the
  \<open>webviewReady\<close> message, and the buffer is empty.
\<close>

theorem buffered_messages_flushed_in_order:
  "(\<not> ws_is_open c \<and> length (sendBuffer c) \<le> maxBufferSize c \<and> c' = post_all msgs c \<longrightarrow>
      sendBuffer c' = drop (length (sendBuffer c @ msgs) - maxBufferSize c) (sendBuffer c @ msgs)
      \<and> length (sendBuffer c') \<le> maxBufferSize c \<and> maxBufferSize c' = maxBufferSize c
      \<and> wire c' = wire c \<and> \<not> ws_is_open c')
   \<and> (wc_ws d = Some h \<and> map_of (wc_sockets d) h = Some CONNECTING \<longrightarrow>
      socket_opens h d =
        Inr (d\<lparr>wc_sockets := map_set h OPEN (wc_sockets d), wc_state := WsConnected,
               wc_reconnectDelay := 1000,
               wire := wire d @ map (Pair h) (sendBuffer d) @ [(h, webviewReady)],
               sendBuffer := []\<rparr>))
   \<and> maxBufferSize ws_new = 100 \<and> sendBuffer ws_new = []"
proof -
  have a: "sendBuffer c' = drop (length (sendBuffer c @ msgs) - maxBufferSize c) (sendBuffer c @ msgs)
      \<and> length (sendBuffer c') \<le> maxBufferSize c \<and> maxBufferSize c' = maxBufferSize c
      \<and> wire c' = wire c \<and> \<not> ws_is_open c'"
    if "\<not> ws_is_open c" "length (sendBuffer c) \<le> maxBufferSize c" "c' = post_all msgs c"
    using that post_all_closed[OF that(1) that(2), of msgs]
    by (auto simp: ws_is_open_def split: option.splits)
  have b: "socket_opens h d =
        Inr (d\<lparr>wc_sockets := map_set h OPEN (wc_sockets d), wc_state := WsConnected,
               wc_reconnectDelay := 1000,
               wire := wire d @ map (Pair h) (sendBuffer d) @ [(h, webviewReady)],
               sendBuffer := []\<rparr>)"
    if "wc_ws d = Some h" "map_of (wc_sockets d) h = Some CONNECTING"
    using that by (rule socket_opens_current)
  have c: "maxBufferSize ws_new = 100 \<and> sendBuffer ws_new = []" by (simp add: ws_new_def)
  from a b c show ?thesis by blast
qed

theorem buffered_messages_flushed_in_order_witness:
  "\<not> ws_is_open (ws_new\<lparr>sendBuffer := replicate 99 (lit ''m'')\<rparr>)
   \<and> length (sendBuffer (ws_new\<lparr>sendBuffer := replicate 99 (lit ''m'')\<rparr>))
       \<le> maxBufferSize (ws_new\<lparr>sendBuffer := replicate 99 (lit ''m'')\<rparr>)
   \<and> wc_ws (post_all [lit ''a'', lit ''b'', lit ''c''] (ws_new\<lparr>sendBuffer := replicate 99 (lit ''m'')\<rparr>)) = Some 0
   \<and> map_of (wc_sockets (post_all [lit ''a'', lit ''b'', lit ''c'']
        (ws_new\<lparr>sendBuffer := replicate 99 (lit ''m'')\<rparr>))) 0 = Some CONNECTING
   \<and> sendBuffer (post_all [lit ''a'', lit ''b'', lit ''c''] (ws_new\<lparr>sendBuffer := replicate 99 (lit ''m'')\<rparr>))
       = replicate 97 (lit ''m'') @ [lit ''a'', lit ''b'', lit ''c'']
   \<and> socket_opens 0 (post_all [lit ''a'', lit ''b'', lit ''c''] (ws_new\<lparr>sendBuffer := replicate 99 (lit ''m'')\<rparr>))
       = Inr (ws_new\<lparr>wc_sockets := [(0, OPEN)], wc_state := WsConnected,
               wire := map (Pair 0) (replicate 97 (lit ''m'') @ [lit ''a'', lit ''b'', lit ''c''])
                         @ [(0, webviewReady)]\<rparr>)"
proof -
  let ?c = "ws_new\<lparr>sendBuffer := replicate 99 (lit ''m'')\<rparr>"
  let ?msgs = "[lit ''a'', lit ''b'', lit ''c'']"
  have h1: "\<not> ws_is_open ?c" by code_simp
  have h2: "length (sendBuffer ?c) \<le> maxBufferSize ?c" by code_simp
  have h3: "wc_ws (post_all ?msgs ?c) = Some 0" by code_simp
  have h4: "map_of (wc_sockets (post_all ?msgs ?c)) 0 = Some CONNECTING" by code_simp
  have v1: "drop (length (sendBuffer ?c @ ?msgs) - maxBufferSize ?c) (sendBuffer ?c @ ?msgs)
      = replicate 97 (lit ''m'') @ [lit ''a'', lit ''b'', lit ''c'']" by code_simp
  have v2: "(post_all ?msgs ?c)\<lparr>wc_sockets := map_set 0 OPEN (wc_sockets (post_all ?msgs ?c)),
               wc_state := WsConnected, wc_reconnectDelay := 1000,
               wire := wire (post_all ?msgs ?c) @ map (Pair 0) (sendBuffer (post_all ?msgs ?c)) @ [(0, webviewReady)],
               sendBuffer := []\<rparr>
     = ws_new\<lparr>wc_sockets := [(0, OPEN)], wc_state := WsConnected,
               wire := map (Pair 0) (replicate 97 (lit ''m'') @ [lit ''a'', lit ''b'', lit ''c''])
                         @ [(0, webviewReady)]\<rparr>" by code_simp
  from buffered_messages_flushed_in_order[of ?c "post_all ?msgs ?c" ?msgs "post_all ?msgs ?c" 0]
    h1 h2 h3 h4 v1 v2
  show ?thesis by simp
qed


section \<open>Properties of the request correlation of the gateway client\<close>

lemma quiet_refl: "quiet c c"
  by (simp add: quiet_def list_all_iff)

lemma quiet_trans: "quiet a b \<Longrightarrow> quiet b c \<Longrightarrow> quiet a c"
  by (auto simp: quiet_def list_all_iff)

lemma quiet_emit: "\<not> is_settlement e \<Longrightarrow> quiet c (emit e c)"
  by (simp add: quiet_def emit_def list_all_iff)

lemma quiet_setState: "quiet c (setState st d c)"
  by (simp add: quiet_def setState_def emit_def list_all_iff)

lemma quiet_sendRaw: "quiet c (sendRaw f c)"
  by (simp add: quiet_def sendRaw_def emit_def list_all_iff split: option.splits)

lemma quiet_set_readyState: "quiet c (set_readyState h r c)"
  by (simp add: quiet_def set_readyState_def list_all_iff)

lemma quiet_clearTimeout: "quiet c (clearTimeout h c)"
  by (simp add: quiet_def clearTimeout_def list_all_iff)

lemma quiet_scheduleReconnect: "quiet c (scheduleReconnect c)"
  by (simp add: quiet_def scheduleReconnect_def setTimeout_def list_all_iff)

lemma quiet_connect: "quiet c (connect thrown c)"
  by (auto simp: quiet_def connect_def scheduleReconnect_def setState_def emit_def setTimeout_def Let_def list_all_iff
      split: option.splits)

lemma quiet_sendConnectRequest: "quiet c (sendConnectRequest c)"
  by (auto simp: quiet_def sendConnectRequest_def nextRequestId_def sendRaw_def emit_def readyState_def list_all_iff
      split: option.splits)

lemma quiet_onConnected: "quiet c (onConnected p c)"
  by (auto simp: quiet_def onConnected_def setState_def emit_def setTimeout_def Let_def list_all_iff)

lemma quiet_on_open: "quiet c (on_open c)"
  by (simp add: on_open_def quiet_setState)

lemma quiet_fields: "quiet c (c\<lparr>reconnectTimer := x\<rparr>)" "quiet c (c\<lparr>tickTimer := y\<rparr>)" "quiet c (c\<lparr>ws := z\<rparr>)"
  by (simp_all add: quiet_def list_all_iff)

lemma quiet_pending: "quiet c c' \<Longrightarrow> is_pending rid c' = is_pending rid c"
  by (simp add: quiet_def is_pending_def)

lemma filter_settle: "filter (is_settle rid) xs = filter (is_settle rid) (filter is_settlement xs)"
proof -
  have "is_settle rid e \<Longrightarrow> is_settlement e" for e by (cases e) simp_all
  then show ?thesis by (induction xs) auto
qed

lemma quiet_settles: "quiet c c' \<Longrightarrow> settles rid c' = settles rid c"
  unfolding settles_def quiet_def using filter_settle[of rid "effects c'"] filter_settle[of rid "effects c"]
  by simp

lemma generated_ids_mono: "requestId c \<le> requestId c' \<Longrightarrow> set (generated_ids c) \<subseteq> set (generated_ids c')"
  by (auto simp: generated_ids_def)

lemma quiet_inv: "quiet c c' \<Longrightarrow> gw_inv c \<Longrightarrow> gw_inv c'"
proof -
  assume q: "quiet c c'" and i: "gw_inv c"
  have p: "pendingRequests c' = pendingRequests c" using q by (simp add: quiet_def)
  have g: "set (generated_ids c) \<subseteq> set (generated_ids c')"
    using q by (simp add: quiet_def generated_ids_mono)
  have t: "timer_of_pending c' e" if "e \<in> set (timers c')" for e
  proof -
    from q that have "e \<in> set (timers c) \<or> \<not> is_request_timer (fst (snd e))"
      by (auto simp: quiet_def list_all_iff)
    then show ?thesis
    proof
      assume "e \<in> set (timers c)"
      with i have "timer_of_pending c e" by (simp add: gw_inv_def list_all_iff)
      then show ?thesis by (simp add: timer_of_pending_def p split: timer_kind.splits)
    next
      assume "\<not> is_request_timer (fst (snd e))"
      then show ?thesis by (cases "fst (snd e)") (simp_all add: timer_of_pending_def)
    qed
  qed
  show ?thesis using i g t by (auto simp: gw_inv_def p list_all_iff)
qed


lemma request_id_inj: "request_id n = request_id m \<longleftrightarrow> n = m"
  using show_nat_inj by (auto simp: request_id_def)

lemma fresh_request_id: "request_id (requestId c + 1) \<notin> set (generated_ids c)"
  by (auto simp: generated_ids_def request_id_inj)

lemma map_of_map_delete: "map_of (map_delete k m) k' = (if k' = k then None else map_of m k')"
  by (induction m) (auto simp: map_delete_def)

lemma distinct_map_delete: "distinct (map fst m) \<Longrightarrow> distinct (map fst (map_delete k m))"
  by (induction m) (auto simp: map_delete_def)

lemma set_map_delete: "set (map_delete k m) \<subseteq> set m"
  by (auto simp: map_delete_def)

text \<open>A step that removes one pending request and settles it once.\<close>

lemma removal_step:
  assumes inv: "gw_inv c"
    and found: "map_of (pendingRequests c) rid0 = Some t"
    and pend: "pendingRequests c' = map_delete rid0 (pendingRequests c)"
    and rq: "requestId c \<le> requestId c'"
    and tm: "\<forall>e \<in> set (timers c'). (e \<in> set (timers c) \<and> fst e \<noteq> t) \<or> \<not> is_request_timer (fst (snd e))"
    and eff: "filter is_settlement (effects c') = filter is_settlement (effects c) @ [s]"
    and s: "\<And>rid. is_settle rid s \<longleftrightarrow> rid = rid0"
  shows "gw_inv c'"
    and "is_pending rid c' \<longleftrightarrow> is_pending rid c \<and> rid \<noteq> rid0"
    and "settles rid c' = settles rid c + (if rid = rid0 then 1 else 0)"
proof -
  have d: "distinct (map fst (pendingRequests c'))"
    using inv by (simp add: pend gw_inv_def distinct_map_delete)
  have g: "set (generated_ids c) \<subseteq> set (generated_ids c')" using rq by (rule generated_ids_mono)
  have ids: "list_all (\<lambda>entry. fst entry \<in> set (generated_ids c')) (pendingRequests c')"
    using inv g set_map_delete[of rid0 "pendingRequests c"]
    by (auto simp: pend gw_inv_def list_all_iff)
  have t: "timer_of_pending c' e" if e: "e \<in> set (timers c')" for e
  proof (cases "is_request_timer (fst (snd e))")
    case False
    then show ?thesis by (cases "fst (snd e)") (simp_all add: timer_of_pending_def)
  next
    case True
    with tm e have old: "e \<in> set (timers c)" and ne: "fst e \<noteq> t" by auto
    from inv old have top: "timer_of_pending c e" by (simp add: gw_inv_def list_all_iff)
    from True obtain r m where k: "fst (snd e) = RequestTimer r m" by (cases "fst (snd e)") simp_all
    from top k have pr: "map_of (pendingRequests c) r = Some (fst e)" by (simp add: timer_of_pending_def)
    with found ne have "r \<noteq> rid0" by auto
    with pr show ?thesis by (simp add: timer_of_pending_def k pend map_of_map_delete)
  qed
  show "gw_inv c'" using d ids t by (simp add: gw_inv_def list_all_iff)
  show "is_pending rid c' \<longleftrightarrow> is_pending rid c \<and> rid \<noteq> rid0"
    by (auto simp: is_pending_def pend map_of_map_delete)
  have "filter (is_settle rid) (effects c') = filter (is_settle rid) (filter is_settlement (effects c) @ [s])"
    using filter_settle[of rid "effects c'"] eff by simp
  also have "\<dots> = filter (is_settle rid) (effects c) @ (if rid = rid0 then [s] else [])"
    using filter_settle[of rid "effects c"] s[of rid] by simp
  finally show "settles rid c' = settles rid c + (if rid = rid0 then 1 else 0)"
    by (simp add: settles_def)
qed

lemma handleFrame_unknown:
  "map_of (pendingRequests c) rid = None \<Longrightarrow> handleFrame (ResFrame rid ok p e) c = c"
  by (simp add: handleFrame_def)

lemma handleFrame_found_shape:
  assumes found: "map_of (pendingRequests c) rid0 = Some t"
  shows "\<exists>c3. quiet (c\<lparr>timers := filter (\<lambda>entry. fst entry \<noteq> t) (timers c),
                       pendingRequests := map_delete rid0 (pendingRequests c)\<rparr>) c3 \<and>
           handleFrame (ResFrame rid0 ok p e) c =
             emit (if ok then Resolve rid0 p
                   else Reject rid0 (case e of None \<Rightarrow> lit ''Request failed'' | Some m \<Rightarrow> m)) c3"
proof -
  let ?c2 = "c\<lparr>timers := filter (\<lambda>entry. fst entry \<noteq> t) (timers c),
               pendingRequests := map_delete rid0 (pendingRequests c)\<rparr>"
  show ?thesis
  proof (cases ok)
    case False
    have "handleFrame (ResFrame rid0 ok p e) c =
        emit (Reject rid0 (case e of None \<Rightarrow> lit ''Request failed'' | Some m \<Rightarrow> m)) ?c2"
      using found False by (simp add: handleFrame_def clearTimeout_def Let_def)
    with False quiet_refl[of ?c2] show ?thesis by auto
  next
    case True
    let ?c3 = "(case p of None \<Rightarrow> ?c2
                | Some q \<Rightarrow> if rp_type q = Some (JStr (lit ''hello-ok'')) then onConnected q ?c2 else ?c2)"
    have q: "quiet ?c2 ?c3"
      by (auto simp: quiet_refl quiet_onConnected split: option.splits)
    have "handleFrame (ResFrame rid0 ok p e) c = emit (Resolve rid0 p) ?c3"
      using found True by (simp add: handleFrame_def clearTimeout_def Let_def split: option.splits)
    with True q show ?thesis by auto
  qed
qed

lemma handleFrame_found:
  assumes inv: "gw_inv c" and found: "map_of (pendingRequests c) rid0 = Some t"
  shows "gw_inv (handleFrame (ResFrame rid0 ok p e) c)"
    and "is_pending rid (handleFrame (ResFrame rid0 ok p e) c) \<longleftrightarrow> is_pending rid c \<and> rid \<noteq> rid0"
    and "settles rid (handleFrame (ResFrame rid0 ok p e) c) = settles rid c + (if rid = rid0 then 1 else 0)"
    and "requestId c \<le> requestId (handleFrame (ResFrame rid0 ok p e) c)"
proof -
  let ?c2 = "c\<lparr>timers := filter (\<lambda>entry. fst entry \<noteq> t) (timers c),
               pendingRequests := map_delete rid0 (pendingRequests c)\<rparr>"
  let ?s = "if ok then Resolve rid0 p
            else Reject rid0 (case e of None \<Rightarrow> lit ''Request failed'' | Some m \<Rightarrow> m)"
  let ?c' = "handleFrame (ResFrame rid0 ok p e) c"
  from handleFrame_found_shape[OF found, of ok p e] obtain c3
    where q: "quiet ?c2 c3" and h: "?c' = emit ?s c3" by blast
  have pend: "pendingRequests ?c' = map_delete rid0 (pendingRequests c)"
    using q by (simp add: h emit_def quiet_def)
  have rq: "requestId c \<le> requestId ?c'" using q by (simp add: h emit_def quiet_def)
  have tm: "\<forall>e \<in> set (timers ?c'). (e \<in> set (timers c) \<and> fst e \<noteq> t) \<or> \<not> is_request_timer (fst (snd e))"
    using q by (auto simp: h emit_def quiet_def list_all_iff)
  have eff: "filter is_settlement (effects ?c') = filter is_settlement (effects c) @ [?s]"
    using q by (simp add: h emit_def quiet_def)
  have s: "\<And>rid. is_settle rid ?s \<longleftrightarrow> rid = rid0" by auto
  note r = removal_step[OF inv found pend rq tm eff s]
  show "gw_inv ?c'" by (rule r(1))
  show "is_pending rid ?c' \<longleftrightarrow> is_pending rid c \<and> rid \<noteq> rid0" by (rule r(2))
  show "settles rid ?c' = settles rid c + (if rid = rid0 then 1 else 0)" by (rule r(3))
  show "requestId c \<le> requestId ?c'" by (rule rq)
qed


lemma fire_request_timer:
  assumes inv: "gw_inv c" and armed: "map_of (timers c) h = Some (RequestTimer rid0 m, ms)"
  shows "gw_inv (fire_timer h thrown c)"
    and "is_pending rid (fire_timer h thrown c) \<longleftrightarrow> is_pending rid c \<and> rid \<noteq> rid0"
    and "settles rid (fire_timer h thrown c) = settles rid c + (if rid = rid0 then 1 else 0)"
    and "requestId (fire_timer h thrown c) = requestId c"
    and "is_pending rid0 c"
proof -
  let ?c' = "fire_timer h thrown c"
  let ?s = "Reject rid0 (lit ''Request '' @ m @ lit '' timed out'')"
  have c': "?c' = emit ?s ((clearTimeout h c)\<lparr>pendingRequests := map_delete rid0 (pendingRequests c)\<rparr>)"
    using armed by (simp add: fire_timer_def)
  from armed have mem: "(h, RequestTimer rid0 m, ms) \<in> set (timers c)" by (rule map_of_SomeD)
  with inv have "timer_of_pending c (h, RequestTimer rid0 m, ms)" by (simp add: gw_inv_def list_all_iff)
  then have found: "map_of (pendingRequests c) rid0 = Some h" by (simp add: timer_of_pending_def)
  have pend: "pendingRequests ?c' = map_delete rid0 (pendingRequests c)"
    by (simp add: c' emit_def clearTimeout_def)
  have rq: "requestId c \<le> requestId ?c'" by (simp add: c' emit_def clearTimeout_def)
  have tm: "\<forall>e \<in> set (timers ?c'). (e \<in> set (timers c) \<and> fst e \<noteq> h) \<or> \<not> is_request_timer (fst (snd e))"
    by (simp add: c' emit_def clearTimeout_def)
  have eff: "filter is_settlement (effects ?c') = filter is_settlement (effects c) @ [?s]"
    by (simp add: c' emit_def clearTimeout_def)
  have s: "\<And>rid. is_settle rid ?s \<longleftrightarrow> rid = rid0" by auto
  note r = removal_step[OF inv found pend rq tm eff s]
  show "gw_inv ?c'" by (rule r(1))
  show "is_pending rid ?c' \<longleftrightarrow> is_pending rid c \<and> rid \<noteq> rid0" by (rule r(2))
  show "settles rid ?c' = settles rid c + (if rid = rid0 then 1 else 0)" by (rule r(3))
  show "requestId ?c' = requestId c" by (simp add: c' emit_def clearTimeout_def)
  show "is_pending rid0 c" using found by (simp add: is_pending_def)
qed

lemma fire_other_timer:
  assumes "map_of (timers c) h = None \<or> map_of (timers c) h = Some (ReconnectTimer, ms)
           \<or> map_of (timers c) h = Some (TickTimer, ms)"
  shows "quiet c (fire_timer h thrown c)"
  using assms
proof (elim disjE)
  assume "map_of (timers c) h = None"
  then show ?thesis by (simp add: fire_timer_def quiet_refl)
next
  assume a: "map_of (timers c) h = Some (ReconnectTimer, ms)"
  have q1: "quiet c ((clearTimeout h c)\<lparr>reconnectTimer := None\<rparr>)"
    by (simp add: quiet_def clearTimeout_def list_all_iff)
  have q2: "quiet ((clearTimeout h c)\<lparr>reconnectTimer := None\<rparr>)
      (connect thrown ((clearTimeout h c)\<lparr>reconnectTimer := None\<rparr>))"
    by (rule quiet_connect)
  show ?thesis using quiet_trans[OF q1 q2] a by (simp add: fire_timer_def)
next
  assume a: "map_of (timers c) h = Some (TickTimer, ms)"
  then show ?thesis by (simp add: fire_timer_def quiet_sendRaw)
qed

lemma request_refused: "state c \<noteq> Connected \<Longrightarrow> quiet c (request m ms c)"
  by (simp add: request_def quiet_emit)

lemma request_registered:
  assumes inv: "gw_inv c" and st: "state c = Connected"
  shows "gw_inv (request m ms c)"
    and "is_pending rid (request m ms c) \<longleftrightarrow> is_pending rid c \<or> rid = request_id (requestId c + 1)"
    and "settles rid (request m ms c) = settles rid c"
    and "requestId (request m ms c) = requestId c + 1"
proof -
  let ?rid = "request_id (requestId c + 1)"
  let ?c' = "request m ms c"
  have fresh: "map_of (pendingRequests c) ?rid = None"
  proof (cases "map_of (pendingRequests c) ?rid")
    case None then show ?thesis .
  next
    case (Some t)
    then have "(?rid, t) \<in> set (pendingRequests c)" by (rule map_of_SomeD)
    with inv have "?rid \<in> set (generated_ids c)" by (auto simp: gw_inv_def list_all_iff)
    with fresh_request_id[of c] show ?thesis by simp
  qed
  let ?c3 = "c\<lparr>requestId := requestId c + 1,
               timers := timers c @ [(nextTimer c, RequestTimer ?rid m, ms)],
               nextTimer := nextTimer c + 1,
               pendingRequests := pendingRequests c @ [(?rid, nextTimer c)]\<rparr>"
  have c': "?c' = sendRaw (ReqFrame ?rid m) ?c3"
    using st fresh by (simp add: request_def nextRequestId_def setTimeout_def Let_def map_set_new)
  have q: "quiet ?c3 ?c'" unfolding c' by (rule quiet_sendRaw)
  have pend: "pendingRequests ?c' = pendingRequests c @ [(?rid, nextTimer c)]"
    using q by (simp add: quiet_def)
  have i3: "gw_inv ?c3"
  proof -
    have d: "distinct (map fst (pendingRequests ?c3))"
      using inv fresh by (auto simp: gw_inv_def map_of_eq_None_iff)
    have g: "set (generated_ids c) \<subseteq> set (generated_ids ?c3)" by (auto simp: generated_ids_def)
    have me: "?rid \<in> set (generated_ids ?c3)" by (auto simp: generated_ids_def)
    have ids: "list_all (\<lambda>entry. fst entry \<in> set (generated_ids ?c3)) (pendingRequests ?c3)"
      using inv g me by (auto simp: gw_inv_def list_all_iff)
    have t: "timer_of_pending ?c3 e" if "e \<in> set (timers c)" for e
    proof -
      from inv that have "timer_of_pending c e" by (simp add: gw_inv_def list_all_iff)
      then show ?thesis
        by (auto simp: timer_of_pending_def map_add_Some_iff split: timer_kind.splits)
    qed
    have tn: "timer_of_pending ?c3 (nextTimer c, RequestTimer ?rid m, ms)"
      using fresh by (simp add: timer_of_pending_def map_add_Some_iff)
    show ?thesis using d ids t tn by (auto simp: gw_inv_def list_all_iff)
  qed
  show "gw_inv ?c'" using q i3 by (rule quiet_inv)
  show "is_pending rid ?c' \<longleftrightarrow> is_pending rid c \<or> rid = ?rid"
    using fresh by (auto simp: is_pending_def pend map_add_Some_iff split: if_splits)
  have "settles rid ?c' = settles rid ?c3" using q by (rule quiet_settles)
  then show "settles rid ?c' = settles rid c" by (simp add: settles_def)
  show "requestId ?c' = requestId c + 1"
    by (simp add: c' sendRaw_def emit_def split: option.splits)
qed


lemma reject_all_fields:
  "pendingRequests (reject_all ps c) = pendingRequests c"
  "requestId (reject_all ps c) = requestId c"
  "timers (reject_all ps c) = filter (\<lambda>entry. fst entry \<notin> snd ` set ps) (timers c)"
  "effects (reject_all ps c) = effects c @ map (\<lambda>p. Reject (fst p) (lit ''Connection closed'')) ps"
  "ws (reject_all ps c) = ws c" "state (reject_all ps c) = state c"
  "reconnectTimer (reject_all ps c) = reconnectTimer c"
  "sockets (reject_all ps c) = sockets c"
  by (induction ps arbitrary: c; auto simp: emit_def clearTimeout_def)+

lemma count_key:
  "distinct (map fst ps) \<Longrightarrow>
   length (filter (\<lambda>p. fst p = k) ps) = (if map_of ps k = None then 0 else 1)"
  by (induction ps) (auto simp: map_of_eq_None_iff image_iff)

lemma cleanup_step:
  assumes inv: "gw_inv c"
  shows "gw_inv (cleanup c)"
    and "\<not> is_pending rid (cleanup c)"
    and "settles rid (cleanup c) = settles rid c + (if is_pending rid c then 1 else 0)"
    and "requestId (cleanup c) = requestId c"
    and "pendingRequests (cleanup c) = []"
    and "effects (cleanup c) =
           effects c @ map (\<lambda>p. Reject (fst p) (lit ''Connection closed'')) (pendingRequests c)"
proof -
  let ?c1 = "(case tickTimer c of None \<Rightarrow> c | Some t \<Rightarrow> (clearTimeout t c)\<lparr>tickTimer := None\<rparr>)"
  have p1: "pendingRequests ?c1 = pendingRequests c" and e1: "effects ?c1 = effects c"
    and r1: "requestId ?c1 = requestId c" and t1: "set (timers ?c1) \<subseteq> set (timers c)"
    by (auto simp: clearTimeout_def split: option.splits)
  have c': "cleanup c = (reject_all (pendingRequests c) ?c1)\<lparr>pendingRequests := [], ws := None\<rparr>"
    by (simp add: cleanup_def Let_def p1)
  show pe: "pendingRequests (cleanup c) = []" by (simp add: c')
  show "requestId (cleanup c) = requestId c" by (simp add: c' reject_all_fields r1)
  show ef: "effects (cleanup c) =
           effects c @ map (\<lambda>p. Reject (fst p) (lit ''Connection closed'')) (pendingRequests c)"
    by (simp add: c' reject_all_fields e1)
  show "\<not> is_pending rid (cleanup c)" by (simp add: is_pending_def pe)
  have tm: "timers (cleanup c) = filter (\<lambda>entry. fst entry \<notin> snd ` set (pendingRequests c)) (timers ?c1)"
    by (simp add: c' reject_all_fields)
  have t: "timer_of_pending (cleanup c) e" if e: "e \<in> set (timers (cleanup c))" for e
  proof (cases "fst (snd e)")
    case (RequestTimer r m)
    from e tm t1 have old: "e \<in> set (timers c)" and nf: "fst e \<notin> snd ` set (pendingRequests c)" by auto
    from inv old have "timer_of_pending c e" by (simp add: gw_inv_def list_all_iff)
    with RequestTimer have "map_of (pendingRequests c) r = Some (fst e)" by (simp add: timer_of_pending_def)
    then have "(r, fst e) \<in> set (pendingRequests c)" by (rule map_of_SomeD)
    with nf show ?thesis by force
  qed (simp_all add: timer_of_pending_def)
  show "gw_inv (cleanup c)" using t by (simp add: gw_inv_def pe list_all_iff)
  have cnt: "length (filter (is_settle rid) (map (\<lambda>p. Reject (fst p) (lit ''Connection closed'')) ps))
      = length (filter (\<lambda>p. fst p = rid) ps)" for ps :: "(ustring \<times> nat) list"
    by (induction ps) auto
  have d: "distinct (map fst (pendingRequests c))" using inv by (simp add: gw_inv_def)
  have "settles rid (cleanup c) = settles rid c +
      length (filter (is_settle rid)
        (map (\<lambda>p. Reject (fst p) (lit ''Connection closed'')) (pendingRequests c)))"
    unfolding settles_def ef by (simp only: filter_append length_append)
  also have "\<dots> = settles rid c + (if is_pending rid c then 1 else 0)"
    unfolding cnt count_key[OF d] is_pending_def by simp
  finally show "settles rid (cleanup c) = settles rid c + (if is_pending rid c then 1 else 0)" .
qed

lemma quiet_after:
  assumes q: "quiet a b"
  shows "gw_inv a \<Longrightarrow> gw_inv b" "is_pending rid b = is_pending rid a" "settles rid b = settles rid a"
    "requestId a \<le> requestId b"
  using q quiet_inv quiet_pending quiet_settles by (auto simp: quiet_def)

text \<open>What one step does to a request id, in the three situations the id can be in.\<close>


lemma gw_step_cases:
  assumes inv: "gw_inv c"
  shows "gw_inv (gw_step op c) \<and> requestId c \<le> requestId (gw_step op c) \<and>
    (is_pending rid c \<longrightarrow>
       settles rid (gw_step op c) = settles rid c + (if is_pending rid (gw_step op c) then 0 else 1)) \<and>
    (\<not> is_pending rid c \<longrightarrow> settles rid (gw_step op c) = settles rid c \<and>
       (is_pending rid (gw_step op c) \<longrightarrow> rid \<notin> set (generated_ids c)))"
proof -
  have Q: ?thesis if q: "quiet c (gw_step op c)"
    using quiet_after[OF q] inv by auto
  have CL: "gw_inv c' \<and> requestId c \<le> requestId c' \<and>
    (is_pending rid c \<longrightarrow> settles rid c' = settles rid c + (if is_pending rid c' then 0 else 1)) \<and>
    (\<not> is_pending rid c \<longrightarrow> settles rid c' = settles rid c \<and>
       (is_pending rid c' \<longrightarrow> rid \<notin> set (generated_ids c)))"
    if a: "quiet c a" and b: "quiet (cleanup a) c'" for a c'
  proof -
    have ia: "gw_inv a" using quiet_after(1)[OF a inv] .
    note cs = cleanup_step[OF ia]
    note qa = quiet_after[OF a] note qb = quiet_after[OF b]
    show ?thesis using cs qa qb inv by auto
  qed
  show ?thesis
  proof (cases op)
    case (CallConnect thrown)
    then show ?thesis using Q quiet_connect by (simp add: gw_step_def)
  next
    case (CallRequest m ms)
    show ?thesis
    proof (cases "state c = Connected")
      case True
      note r = request_registered[OF inv True]
      show ?thesis using r fresh_request_id[of c] by (auto simp: CallRequest gw_step_def)
    next
      case False
      then show ?thesis using Q request_refused by (simp add: CallRequest gw_step_def)
    qed
  next
    case CallDisconnect
    let ?c1 = "(case reconnectTimer c of None \<Rightarrow> c | Some t \<Rightarrow> (clearTimeout t c)\<lparr>reconnectTimer := None\<rparr>)"
    have a: "quiet c ?c1" by (auto simp: quiet_def clearTimeout_def list_all_iff split: option.splits)
    have w: "ws (cleanup ?c1) = None" by (simp add: cleanup_def Let_def)
    have d: "disconnect c = setState Disconnected None (cleanup ?c1)"
      using w by (simp add: disconnect_def Let_def)
    have b: "quiet (cleanup ?c1) (disconnect c)" unfolding d by (rule quiet_setState)
    show ?thesis using CL[OF a b] by (simp add: CallDisconnect gw_step_def)
  next
    case (SocketOpen h)
    have "quiet c (on_open (set_readyState h OPEN c))"
      using quiet_trans[OF quiet_set_readyState quiet_on_open] .
    then show ?thesis using Q quiet_refl by (simp add: SocketOpen gw_step_def)
  next
    case (SocketMessage h fr)
    show ?thesis
    proof (cases "readyState c h = Some OPEN")
      case False
      then show ?thesis using Q quiet_refl by (simp add: SocketMessage gw_step_def)
    next
      case True
      then have st: "gw_step op c = handleFrame fr c" by (simp add: SocketMessage gw_step_def)
      show ?thesis
      proof (cases fr)
        case (EventFrame ev pl)
        have "quiet c (handleFrame fr c)"
          by (simp add: EventFrame handleFrame_def quiet_sendConnectRequest quiet_emit)
        then show ?thesis using Q by (simp add: st)
      next
        case OtherFrame
        then show ?thesis using Q quiet_refl by (simp add: st handleFrame_def)
      next
        case (ResFrame rid0 ok p e)
        show ?thesis
        proof (cases "map_of (pendingRequests c) rid0")
          case None
          then show ?thesis using Q quiet_refl by (simp add: st ResFrame handleFrame_unknown)
        next
          case (Some t)
          note r = handleFrame_found[OF inv Some]
          have pe: "is_pending rid0 c" using Some by (simp add: is_pending_def)
          show ?thesis using r pe by (auto simp: st ResFrame)
        qed
      qed
    qed
  next
    case (SocketClose h)
    show ?thesis
    proof (cases "readyState c h = None \<or> readyState c h = Some CLOSED")
      case True
      then show ?thesis using Q quiet_refl by (auto simp: SocketClose gw_step_def)
    next
      case False
      let ?a = "set_readyState h CLOSED c"
      have a: "quiet c ?a" by (rule quiet_set_readyState)
      have b: "quiet (cleanup ?a) (on_close ?a)"
        unfolding on_close_def using quiet_trans[OF quiet_setState quiet_scheduleReconnect] .
      show ?thesis using CL[OF a b] False by (auto simp: SocketClose gw_step_def)
    qed
  next
    case (SocketError h)
    then show ?thesis using Q quiet_refl by (simp add: gw_step_def)
  next
    case (TimerFires h thrown)
    show ?thesis
    proof (cases "map_of (timers c) h")
      case None
      then show ?thesis using Q fire_other_timer[of c h] by (simp add: TimerFires gw_step_def)
    next
      case (Some km)
      obtain k ms where km: "km = (k, ms)" by (cases km)
      show ?thesis
      proof (cases k)
        case ReconnectTimer
        then show ?thesis using Q fire_other_timer[of c h ms thrown] Some km
          by (simp add: TimerFires gw_step_def)
      next
        case TickTimer
        then show ?thesis using Q fire_other_timer[of c h ms thrown] Some km
          by (simp add: TimerFires gw_step_def)
      next
        case (RequestTimer rid0 m)
        with Some km have armed: "map_of (timers c) h = Some (RequestTimer rid0 m, ms)" by simp
        note r = fire_request_timer[OF inv armed]
        show ?thesis using r by (auto simp: TimerFires gw_step_def)
      qed
    qed
  qed
qed


lemma gw_run_inv: "gw_inv c \<Longrightarrow> gw_inv (gw_run ops c)"
  by (induction ops arbitrary: c) (simp_all add: gw_step_cases)

lemma pending_is_generated: "gw_inv c \<Longrightarrow> is_pending rid c \<Longrightarrow> rid \<in> set (generated_ids c)"
proof -
  assume i: "gw_inv c" and p: "is_pending rid c"
  from p obtain t where "map_of (pendingRequests c) rid = Some t" by (auto simp: is_pending_def)
  then have "(rid, t) \<in> set (pendingRequests c)" by (rule map_of_SomeD)
  with i show ?thesis by (auto simp: gw_inv_def list_all_iff)
qed

lemma settled_forever:
  "gw_inv c \<Longrightarrow> \<not> is_pending rid c \<Longrightarrow> rid \<in> set (generated_ids c) \<Longrightarrow>
   settles rid (gw_run ops c) = settles rid c \<and> \<not> is_pending rid (gw_run ops c)"
proof (induction ops arbitrary: c)
  case Nil
  then show ?case by simp
next
  case (Cons op ops)
  note st = gw_step_cases[OF Cons.prems(1), of op rid]
  from st Cons.prems have i1: "gw_inv (gw_step op c)" and s1: "settles rid (gw_step op c) = settles rid c"
    and n1: "\<not> is_pending rid (gw_step op c)" by auto
  from st Cons.prems(3) have g1: "rid \<in> set (generated_ids (gw_step op c))"
    using generated_ids_mono[of c "gw_step op c"] by auto
  from Cons.IH[OF i1 n1 g1] s1 show ?case by simp
qed

lemma pending_once:
  "gw_inv c \<Longrightarrow> is_pending rid c \<Longrightarrow>
   settles rid (gw_run ops c) = settles rid c + (if is_pending rid (gw_run ops c) then 0 else 1)"
proof (induction ops arbitrary: c)
  case Nil
  then show ?case by simp
next
  case (Cons op ops)
  note st = gw_step_cases[OF Cons.prems(1), of op rid]
  from st have i1: "gw_inv (gw_step op c)" by simp
  have g: "rid \<in> set (generated_ids (gw_step op c))"
    using pending_is_generated[OF Cons.prems] st generated_ids_mono[of c "gw_step op c"] by auto
  show ?case
  proof (cases "is_pending rid (gw_step op c)")
    case True
    with st Cons.prems(2) have "settles rid (gw_step op c) = settles rid c" by simp
    with Cons.IH[OF i1 True] show ?thesis by simp
  next
    case False
    with st Cons.prems(2) have "settles rid (gw_step op c) = settles rid c + 1" by simp
    with settled_forever[OF i1 False g, of ops] show ?thesis by simp
  qed
qed

lemma new_at_most_once:
  "gw_inv c \<Longrightarrow> \<not> is_pending rid c \<Longrightarrow>
   settles rid (gw_run ops c) \<le> settles rid c + 1 \<and>
   (is_pending rid (gw_run ops c) \<longrightarrow> settles rid (gw_run ops c) = settles rid c)"
proof (induction ops arbitrary: c)
  case Nil
  then show ?case by simp
next
  case (Cons op ops)
  note st = gw_step_cases[OF Cons.prems(1), of op rid]
  from st have i1: "gw_inv (gw_step op c)" by simp
  from st Cons.prems(2) have s1: "settles rid (gw_step op c) = settles rid c" by simp
  show ?case
  proof (cases "is_pending rid (gw_step op c)")
    case True
    from pending_once[OF i1 True, of ops] s1 show ?thesis by auto
  next
    case False
    from Cons.IH[OF i1 False] s1 show ?thesis by simp
  qed
qed

lemmas gw_defs = gw_step_def connect_def request_def disconnect_def cleanup_def on_open_def on_close_def
        handleFrame_def sendConnectRequest_def nextRequestId_def sendRaw_def fire_timer_def
        scheduleReconnect_def setState_def emit_def setTimeout_def clearTimeout_def set_readyState_def
        map_delete_def readyState_def onConnected_def socket_close_def Let_def gw_init_def challenge_def hello_ok_def

lemma connect_state: "state c \<noteq> Connected \<Longrightarrow> state (connect thrown c) \<noteq> Connected"
  by (auto simp: connect_def setState_def emit_def scheduleReconnect_def setTimeout_def Let_def
      split: option.splits)

lemma reject_all_state: "state (reject_all ps c) = state c"
  by (induction ps arbitrary: c) (auto simp: emit_def clearTimeout_def)

lemma never_connected_step:
  assumes "state c \<noteq> Connected" "pendingRequests c = []"
  shows "state (gw_step op c) \<noteq> Connected \<and> pendingRequests (gw_step op c) = []"
proof (cases op)
  case (CallConnect thrown)
  have "quiet c (connect thrown c)" by (rule quiet_connect)
  then show ?thesis using assms connect_state by (simp add: CallConnect gw_step_def quiet_def)
next
  case (CallRequest m ms)
  then show ?thesis using assms by (simp add: gw_step_def request_def emit_def)
next
  case CallDisconnect
  then show ?thesis
    by (simp add: gw_step_def disconnect_def cleanup_def setState_def emit_def socket_close_def
        set_readyState_def Let_def split: option.splits)
next
  case (SocketOpen h)
  then show ?thesis using assms
    by (simp add: gw_step_def on_open_def setState_def emit_def set_readyState_def)
next
  case (SocketMessage h fr)
  show ?thesis
  proof (cases fr)
    case (EventFrame ev pl)
    then show ?thesis using assms
      by (simp add: SocketMessage gw_step_def handleFrame_def sendConnectRequest_def nextRequestId_def
          sendRaw_def emit_def split: option.splits)
  next
    case (ResFrame rid ok p e)
    then show ?thesis using assms by (simp add: SocketMessage gw_step_def handleFrame_def)
  next
    case OtherFrame
    then show ?thesis using assms by (simp add: SocketMessage gw_step_def handleFrame_def)
  qed
next
  case (SocketClose h)
  then show ?thesis using assms
    by (simp add: gw_step_def on_close_def cleanup_def setState_def emit_def scheduleReconnect_def
        setTimeout_def set_readyState_def Let_def split: option.splits)
next
  case (SocketError h)
  then show ?thesis using assms by (simp add: gw_step_def)
next
  case (TimerFires h thrown)
  show ?thesis
  proof (cases "map_of (timers c) h")
    case None
    then show ?thesis using assms by (simp add: TimerFires gw_step_def fire_timer_def)
  next
    case (Some km)
    obtain k ms where km: "km = (k, ms)" by (cases km)
    show ?thesis
    proof (cases k)
      case ReconnectTimer
      let ?c1 = "(clearTimeout h c)\<lparr>reconnectTimer := None\<rparr>"
      have s1: "state ?c1 \<noteq> Connected" "pendingRequests ?c1 = []"
        using assms by (simp_all add: clearTimeout_def)
      have "quiet ?c1 (connect thrown ?c1)" by (rule quiet_connect)
      then have "pendingRequests (connect thrown ?c1) = []" using s1 by (simp add: quiet_def)
      then show ?thesis using connect_state[OF s1(1), of thrown] Some km ReconnectTimer
        by (simp add: TimerFires gw_step_def fire_timer_def)
    next
      case (RequestTimer r m)
      then show ?thesis using assms Some km
        by (simp add: TimerFires gw_step_def fire_timer_def emit_def clearTimeout_def map_delete_def)
    next
      case TickTimer
      then show ?thesis using assms Some km
        by (simp add: TimerFires gw_step_def fire_timer_def sendRaw_def emit_def split: option.splits)
    qed
  qed
qed

lemma never_connected:
  "state (gw_run ops gw_init) \<noteq> Connected \<and> pendingRequests (gw_run ops gw_init) = []"
proof -
  have "state c \<noteq> Connected \<and> pendingRequests c = [] \<Longrightarrow>
        state (gw_run ops c) \<noteq> Connected \<and> pendingRequests (gw_run ops c) = []" for c
    by (induction ops arbitrary: c) (simp_all add: never_connected_step)
  then show ?thesis by (simp add: gw_init_def)
qed

lemma quiet_cleanup: "pendingRequests c = [] \<Longrightarrow> quiet c (cleanup c)"
  by (simp add: cleanup_def quiet_def clearTimeout_def Let_def list_all_iff split: option.splits)











section \<open>Properties of reconnection and the handshake\<close>

lemma scheduleReconnect_backoff:
  "reconnectTimer c = None \<Longrightarrow>
     reconnectDelay (scheduleReconnect c) = min (reconnectDelay c * 2) (maxReconnectDelay c) \<and>
     reconnectTimer (scheduleReconnect c) = Some (nextTimer c) \<and>
     timers (scheduleReconnect c) = timers c @ [(nextTimer c, ReconnectTimer, reconnectDelay c)]"
  "reconnectTimer c \<noteq> None \<Longrightarrow> scheduleReconnect c = c"
  by (simp_all add: scheduleReconnect_def setTimeout_def)

lemma onConnected_resets: "reconnectDelay (onConnected p c) = 1000 \<and> state (onConnected p c) = Connected"
  by (simp add: onConnected_def setState_def emit_def setTimeout_def Let_def)

lemma reconnect_inv_same:
  "timers c' = timers c \<Longrightarrow> reconnectTimer c' = reconnectTimer c \<Longrightarrow> reconnect_inv c' = reconnect_inv c"
  by (simp add: reconnect_inv_def)

lemma filter_filter_le:
  "length (filter P (filter Q xs)) \<le> length (filter P xs)"
  by (induction xs) (auto simp: le_SucI)

lemma reconnect_inv_clear: "reconnect_inv c \<Longrightarrow> reconnect_inv (clearTimeout h c)"
proof -
  assume r: "reconnect_inv c"
  have l: "length (filter is_reconnect_timer (filter (\<lambda>entry. fst entry \<noteq> h) (timers c)))
      \<le> length (filter is_reconnect_timer (timers c))"
    by (rule filter_filter_le)
  have a: "list_all (\<lambda>entry. reconnectTimer c = Some (fst entry))
      (filter is_reconnect_timer (filter (\<lambda>entry. fst entry \<noteq> h) (timers c)))"
    using r by (auto simp: reconnect_inv_def list_all_iff)
  from r l have b: "length (filter is_reconnect_timer (filter (\<lambda>entry. fst entry \<noteq> h) (timers c))) \<le> 1"
    by (simp add: reconnect_inv_def)
  show ?thesis unfolding reconnect_inv_def clearTimeout_def using a b by simp
qed

lemma reconnect_inv_drop:
  assumes r: "reconnect_inv c" and t: "reconnectTimer c = Some t"
  shows "reconnect_inv ((clearTimeout t c)\<lparr>reconnectTimer := None\<rparr>)"
proof -
  have "\<forall>e \<in> set (timers c). is_reconnect_timer e \<longrightarrow> fst e = t"
    using r t by (fastforce simp: reconnect_inv_def list_all_iff)
  then have "filter is_reconnect_timer (filter (\<lambda>entry. fst entry \<noteq> t) (timers c)) = []"
    by (auto simp: filter_empty_conv)
  then show ?thesis by (simp add: reconnect_inv_def clearTimeout_def)
qed

lemma reconnect_inv_none:
  "reconnect_inv c \<Longrightarrow> reconnectTimer c = None \<Longrightarrow> filter is_reconnect_timer (timers c) = []"
  by (auto simp: reconnect_inv_def list_all_iff filter_empty_conv)

lemma reconnect_inv_add:
  "reconnect_inv c \<Longrightarrow> kind \<noteq> ReconnectTimer \<Longrightarrow> reconnect_inv (snd (setTimeout kind ms c))"
  by (simp add: reconnect_inv_def setTimeout_def is_reconnect_timer_def)

lemma reconnect_inv_schedule: "reconnect_inv c \<Longrightarrow> reconnect_inv (scheduleReconnect c)"
proof (cases "reconnectTimer c")
  case None
  assume r: "reconnect_inv c"
  from reconnect_inv_none[OF r None] show ?thesis using None
    by (simp add: reconnect_inv_def scheduleReconnect_def setTimeout_def is_reconnect_timer_def)
next
  case (Some t)
  assume "reconnect_inv c"
  then show ?thesis using Some by (simp add: scheduleReconnect_def)
qed

lemma reconnect_inv_emit: "reconnect_inv (emit e c) = reconnect_inv c"
  by (simp add: reconnect_inv_def emit_def)

lemma reconnect_inv_setState: "reconnect_inv (setState st d c) = reconnect_inv c"
  by (simp add: reconnect_inv_def setState_def emit_def)

lemma reconnect_inv_sendRaw: "reconnect_inv (sendRaw f c) = reconnect_inv c"
  by (simp add: reconnect_inv_def sendRaw_def emit_def split: option.splits)

lemma reconnect_inv_readyState: "reconnect_inv (set_readyState h r c) = reconnect_inv c"
  by (simp add: reconnect_inv_def set_readyState_def)

lemma reconnect_inv_connect: "reconnect_inv c \<Longrightarrow> reconnect_inv (connect thrown c)"
proof -
  assume r: "reconnect_inv c"
  have a: "reconnect_inv (scheduleReconnect (setState GwError d (setState Connecting None c)))" for d
    using r by (simp add: reconnect_inv_schedule reconnect_inv_setState)
  have b: "reconnect_inv ((setState Connecting None c)\<lparr>ws := w, sockets := ss, nextSocket := n\<rparr>)" for w ss n
    using r by (simp add: reconnect_inv_def setState_def emit_def)
  show ?thesis using r a b by (simp add: connect_def Let_def split: option.splits)
qed

lemma reconnect_inv_reject_all: "reconnect_inv c \<Longrightarrow> reconnect_inv (reject_all ps c)"
proof (induction ps arbitrary: c)
  case Nil
  then show ?case by simp
next
  case (Cons p ps)
  obtain rid t where p: "p = (rid, t)" by (cases p)
  have "reconnect_inv (emit (Reject rid (lit ''Connection closed'')) (clearTimeout t c))"
    using Cons.prems by (simp add: reconnect_inv_emit reconnect_inv_clear)
  then show ?case using Cons.IH by (simp add: p)
qed

lemma reconnect_inv_cleanup: "reconnect_inv c \<Longrightarrow> reconnect_inv (cleanup c)"
proof -
  assume r: "reconnect_inv c"
  let ?c1 = "(case tickTimer c of None \<Rightarrow> c | Some t \<Rightarrow> (clearTimeout t c)\<lparr>tickTimer := None\<rparr>)"
  have r1: "reconnect_inv ?c1"
  proof (cases "tickTimer c")
    case None
    then show ?thesis using r by simp
  next
    case (Some t)
    have "reconnect_inv ((clearTimeout t c)\<lparr>tickTimer := None\<rparr>) = reconnect_inv (clearTimeout t c)"
      by (rule reconnect_inv_same) simp_all
    then show ?thesis using Some reconnect_inv_clear[OF r, of t] by simp
  qed
  have "reconnect_inv ((reject_all (pendingRequests ?c1) ?c1)\<lparr>pendingRequests := [], ws := None\<rparr>)
      = reconnect_inv (reject_all (pendingRequests ?c1) ?c1)"
    by (rule reconnect_inv_same) simp_all
  then show ?thesis using reconnect_inv_reject_all[OF r1] by (simp add: cleanup_def Let_def)
qed

lemma reconnect_inv_on_close: "reconnect_inv c \<Longrightarrow> reconnect_inv (on_close c)"
  by (simp add: on_close_def reconnect_inv_schedule reconnect_inv_setState reconnect_inv_cleanup)

lemma reconnect_inv_disconnect: "reconnect_inv c \<Longrightarrow> reconnect_inv (disconnect c)"
proof -
  assume r: "reconnect_inv c"
  let ?c1 = "(case reconnectTimer c of None \<Rightarrow> c | Some t \<Rightarrow> (clearTimeout t c)\<lparr>reconnectTimer := None\<rparr>)"
  have r1: "reconnect_inv ?c1"
    using r reconnect_inv_drop[OF r] by (auto split: option.splits)
  have w: "ws (cleanup ?c1) = None" by (simp add: cleanup_def Let_def)
  have d: "disconnect c = setState Disconnected None (cleanup ?c1)"
    using w by (simp add: disconnect_def Let_def)
  show ?thesis unfolding d using reconnect_inv_cleanup[OF r1] by (simp add: reconnect_inv_setState)
qed

lemma reconnect_inv_request: "reconnect_inv c \<Longrightarrow> reconnect_inv (request m ms c)"
proof (cases "state c = Connected")
  case False
  assume "reconnect_inv c"
  then show ?thesis using False by (simp add: request_def reconnect_inv_emit)
next
  case True
  assume r: "reconnect_inv c"
  let ?rid = "request_id (requestId c + 1)"
  let ?c3 = "c\<lparr>requestId := requestId c + 1,
               timers := timers c @ [(nextTimer c, RequestTimer ?rid m, ms)],
               nextTimer := nextTimer c + 1,
               pendingRequests := map_set ?rid (nextTimer c) (pendingRequests c)\<rparr>"
  have r3: "reconnect_inv ?c3" using r by (simp add: reconnect_inv_def is_reconnect_timer_def)
  have "request m ms c = sendRaw (ReqFrame ?rid m) ?c3"
    using True by (simp add: request_def nextRequestId_def setTimeout_def Let_def)
  then show ?thesis using r3 by (simp add: reconnect_inv_sendRaw)
qed

lemma reconnect_inv_onConnected: "reconnect_inv c \<Longrightarrow> reconnect_inv (onConnected p c)"
proof -
  assume r: "reconnect_inv c"
  let ?ms = "(case rp_tickIntervalMs p of None \<Rightarrow> 15000 | Some ms \<Rightarrow> ms)"
  let ?c2 = "c\<lparr>reconnectDelay := 1000, state := Connected,
               effects := effects c @ [EmitConnectionState Connected None],
               timers := timers c @ [(nextTimer c, TickTimer, ?ms)],
               nextTimer := nextTimer c + 1, tickTimer := Some (nextTimer c)\<rparr>"
  have r2: "reconnect_inv ?c2" using r by (simp add: reconnect_inv_def is_reconnect_timer_def)
  have "onConnected p c = emit EmitConnected ?c2"
    by (simp add: onConnected_def setState_def emit_def setTimeout_def Let_def)
  then show ?thesis using r2 by (simp add: reconnect_inv_emit)
qed

lemma reconnect_inv_handleFrame: "reconnect_inv c \<Longrightarrow> reconnect_inv (handleFrame fr c)"
proof (cases fr)
  case (EventFrame ev pl)
  assume r: "reconnect_inv c"
  have "reconnect_inv (c\<lparr>requestId := requestId c + 1\<rparr>) = reconnect_inv c"
    by (rule reconnect_inv_same) simp_all
  then have "reconnect_inv (sendConnectRequest c)"
    using r by (simp add: sendConnectRequest_def nextRequestId_def reconnect_inv_sendRaw)
  then show ?thesis using r by (simp add: EventFrame handleFrame_def reconnect_inv_emit)
next
  case (ResFrame rid ok p e)
  assume r: "reconnect_inv c"
  show ?thesis
  proof (cases "map_of (pendingRequests c) rid")
    case None
    then show ?thesis using r by (simp add: ResFrame handleFrame_def)
  next
    case (Some t)
    let ?c2 = "(clearTimeout t c)\<lparr>pendingRequests := map_delete rid (pendingRequests (clearTimeout t c))\<rparr>"
    have "reconnect_inv ?c2 = reconnect_inv (clearTimeout t c)" by (rule reconnect_inv_same) simp_all
    then have r2: "reconnect_inv ?c2" using reconnect_inv_clear[OF r, of t] by simp
    show ?thesis using Some r2 reconnect_inv_onConnected[OF r2]
      by (simp add: ResFrame handleFrame_def Let_def reconnect_inv_emit split: option.splits)
  qed
next
  case OtherFrame
  assume "reconnect_inv c"
  then show ?thesis by (simp add: OtherFrame handleFrame_def)
qed

lemma reconnect_inv_fire: "reconnect_inv c \<Longrightarrow> reconnect_inv (fire_timer h thrown c)"
proof (cases "map_of (timers c) h")
  case None
  assume "reconnect_inv c"
  then show ?thesis using None by (simp add: fire_timer_def)
next
  case (Some km)
  assume r: "reconnect_inv c"
  obtain k ms where km: "km = (k, ms)" by (cases km)
  show ?thesis
  proof (cases k)
    case ReconnectTimer
    from Some km ReconnectTimer have "(h, ReconnectTimer, ms) \<in> set (timers c)"
      by (auto dest: map_of_SomeD)
    with r have t: "reconnectTimer c = Some h"
      by (auto simp: reconnect_inv_def list_all_iff is_reconnect_timer_def)
    show ?thesis using Some km ReconnectTimer reconnect_inv_connect[OF reconnect_inv_drop[OF r t]]
      by (simp add: fire_timer_def)
  next
    case (RequestTimer rid m)
    have "reconnect_inv ((clearTimeout h c)\<lparr>pendingRequests := map_delete rid (pendingRequests c)\<rparr>)
        = reconnect_inv (clearTimeout h c)" by (rule reconnect_inv_same) simp_all
    then show ?thesis using Some km RequestTimer reconnect_inv_clear[OF r, of h]
      by (simp add: fire_timer_def reconnect_inv_emit)
  next
    case TickTimer
    then show ?thesis using Some km r by (simp add: fire_timer_def reconnect_inv_sendRaw)
  qed
qed

lemma reconnect_inv_step: "reconnect_inv c \<Longrightarrow> reconnect_inv (gw_step op c)"
  by (cases op)
     (simp_all add: gw_step_def reconnect_inv_connect reconnect_inv_request reconnect_inv_disconnect
        on_open_def reconnect_inv_setState reconnect_inv_readyState reconnect_inv_handleFrame
        reconnect_inv_on_close reconnect_inv_fire)

lemma one_reconnect_timer:
  "reconnect_inv (gw_run ops gw_init) \<and>
   length (filter is_reconnect_timer (timers (gw_run ops gw_init))) \<le> 1"
proof -
  have "reconnect_inv c \<Longrightarrow> reconnect_inv (gw_run ops c)" for c
    by (induction ops arbitrary: c) (simp_all add: reconnect_inv_step)
  moreover have "reconnect_inv gw_init" by (simp add: reconnect_inv_def gw_init_def)
  ultimately have "reconnect_inv (gw_run ops gw_init)" by blast
  then show ?thesis by (simp add: reconnect_inv_def)
qed

lemma second_attempt_value:
  "gw_run second_attempt gw_init = \<lparr>ws = Some 1, state = Handshaking, reconnectTimer = None,
    reconnectDelay = 2000, maxReconnectDelay = 30000, tickTimer = None,
    requestId = 1, pendingRequests = [], sockets = [(0, CLOSED), (1, OPEN)],
    timers = [], nextSocket = 2, nextTimer = 1,
    effects =
      [EmitConnectionState Connecting None,
       EmitConnectionState Disconnected None,
       EmitConnectionState Connecting None,
       EmitConnectionState Handshaking None,
       Send 1 (ReqFrame (request_id 1) (lit ''connect''))]\<rparr>"
  by (simp add: second_attempt_def gw_defs lit_def)

text \<open>
  C3. The claim has the reconnect delay start at one second, double after each failed
  attempt up to 30 seconds, and be reset to one second by the hello-ok response to the
  handshake, with at most one reconnect timer armed. \<open>scheduleReconnect\<close> and
  \<open>onConnected\<close> do their part (lemmas \<open>scheduleReconnect_backoff\<close>,
  \<open>one_reconnect_timer\<close>, \<open>onConnected_resets\<close>), but \<open>onConnected\<close> is never
  reached: \<open>sendConnectRequest\<close> sends the connect request without registering its id, and
  \<open>handleFrame\<close> looks at a response only when its id is pending (lemma
  \<open>never_connected\<close>). So after a failed first attempt, a second attempt up to the
  challenge and the accepting response for the connect request \<open>pa-1\<close>, the response has
  changed nothing: the delay is still 2000 ms and the state still \<open>handshaking\<close>.
\<close>

theorem hello_ok_does_not_reset_backoff:
  "reconnectDelay (gw_run second_attempt gw_init) = 2000
   \<and> state (gw_run second_attempt gw_init) = Handshaking
   \<and> last (effects (gw_run second_attempt gw_init)) = Send 1 (ReqFrame (request_id 1) (lit ''connect''))
   \<and> pendingRequests (gw_run second_attempt gw_init) = []
   \<and> gw_step (SocketMessage 1 (hello_ok (request_id 1))) (gw_run second_attempt gw_init)
       = gw_run second_attempt gw_init"
  by (simp add: second_attempt_value gw_step_def readyState_def hello_ok_def handleFrame_def)

section \<open>Properties of disconnecting\<close>

lemma disconnect_effects:
  "effects (disconnect c) =
     effects c @ map (\<lambda>p. Reject (fst p) (lit ''Connection closed'')) (pendingRequests c)
       @ [EmitConnectionState Disconnected None]
   \<and> sockets (disconnect c) = sockets c \<and> ws (disconnect c) = None
   \<and> pendingRequests (disconnect c) = [] \<and> state (disconnect c) = Disconnected
   \<and> reconnectTimer (disconnect c) = None"
proof -
  let ?c1 = "(case reconnectTimer c of None \<Rightarrow> c | Some t \<Rightarrow> (clearTimeout t c)\<lparr>reconnectTimer := None\<rparr>)"
  let ?c2 = "(case tickTimer ?c1 of None \<Rightarrow> ?c1 | Some t \<Rightarrow> (clearTimeout t ?c1)\<lparr>tickTimer := None\<rparr>)"
  have w: "ws (cleanup ?c1) = None" by (simp add: cleanup_def Let_def)
  have d: "disconnect c = setState Disconnected None (cleanup ?c1)"
    using w by (simp add: disconnect_def Let_def)
  have f: "pendingRequests ?c2 = pendingRequests c" "effects ?c2 = effects c" "sockets ?c2 = sockets c"
    "reconnectTimer ?c2 = None"
    by (auto simp: clearTimeout_def split: option.splits)
  have p1: "pendingRequests ?c1 = pendingRequests c" by (auto simp: clearTimeout_def split: option.splits)
  have c': "cleanup ?c1 = (reject_all (pendingRequests c) ?c2)\<lparr>pendingRequests := [], ws := None\<rparr>"
    by (simp add: cleanup_def Let_def f(1))
  show ?thesis
    unfolding d c' by (simp add: setState_def emit_def reject_all_fields f)
qed

text \<open>
  C7. The claim has \<open>disconnect\<close> release the socket. \<open>disconnect\<close> calls \<open>cleanup\<close>
  first, which sets \<open>ws\<close> to \<open>null\<close>; the test \<open>if (this.ws)\<close> that guards \<open>this.ws.close()\<close>
  then always fails (lemma \<open>disconnect_effects\<close>: no \<open>close\<close> is ever called and no socket
  changes its \<open>readyState\<close>). For a client whose socket is open, \<open>disconnect\<close> cancels the
  timers, rejects what is pending and sets the state to \<open>disconnected\<close>, but the socket
  stays open with its handlers attached; when the gateway closes it later, the \<open>close\<close>
  handler schedules a reconnect.
\<close>

theorem disconnect_leaves_socket_open:
  "ws (gw_run [CallConnect None, SocketOpen 0] gw_init) = Some 0
   \<and> sockets (gw_run [CallConnect None, SocketOpen 0] gw_init) = [(0, OPEN)]
   \<and> ws (gw_run [CallConnect None, SocketOpen 0, CallDisconnect] gw_init) = None
   \<and> state (gw_run [CallConnect None, SocketOpen 0, CallDisconnect] gw_init) = Disconnected
   \<and> sockets (gw_run [CallConnect None, SocketOpen 0, CallDisconnect] gw_init) = [(0, OPEN)]
   \<and> effects (gw_run [CallConnect None, SocketOpen 0, CallDisconnect] gw_init) =
       [EmitConnectionState Connecting None, EmitConnectionState Handshaking None,
        EmitConnectionState Disconnected None]
   \<and> reconnectTimer (gw_run [CallConnect None, SocketOpen 0, CallDisconnect, SocketClose 0] gw_init) = Some 0
   \<and> timers (gw_run [CallConnect None, SocketOpen 0, CallDisconnect, SocketClose 0] gw_init)
       = [(0, ReconnectTimer, 1000)]"
  by (simp add: gw_defs)

end
